theory Spec2Isabelle
  imports Main "HOL-Library.Char_ord" "HOL-Library.List_Lexorder"
begin

section \<open>Python text primitives\<close>

text \<open>
  The program is Python 3: its strings are sequences of code points. A \<^typ>\<open>char\<close> of
  the model is a code point below 256, and the library predicates below are the values
  \<^verbatim>\<open>str.isspace\<close>, \<^verbatim>\<open>str.isdigit\<close>, \<^verbatim>\<open>str.lower\<close> and \<^verbatim>\<open>str.title\<close>
  take on that range. Text with code points from 256 on is outside the model. The few
  symbols of the program's own literals that lie beyond the range (they occur in output
  only) are written as their UTF-8 byte sequences.
\<close>

datatype py_error = KeyError | IndexError | ValueError | TypeError | AttributeError | IntegrityError

definition isspace :: "char \<Rightarrow> bool" where
  "isspace c = (c \<in> set [CHR 0x09, CHR 0x0A, CHR 0x0B, CHR 0x0C, CHR 0x0D,
                           CHR 0x1C, CHR 0x1D, CHR 0x1E, CHR 0x1F, CHR 0x20,
                           CHR 0x85, CHR 0xA0])"

definition strip :: "string \<Rightarrow> string" where
  \<comment> \<open>\<^verbatim>\<open>s.strip()\<close>\<close>
  "strip s = rev (dropWhile isspace (rev (dropWhile isspace s)))"

definition is_decimal :: "char \<Rightarrow> bool" where
  "is_decimal c = (c \<in> set ''0123456789'')"

definition isdigit_char :: "char \<Rightarrow> bool" where
  \<comment> \<open>\<^verbatim>\<open>str.isdigit\<close> also holds for the superscript digits of Latin-1.\<close>
  "isdigit_char c = (is_decimal c \<or> c \<in> set [CHR 0xB2, CHR 0xB3, CHR 0xB9])"

definition isdigit :: "string \<Rightarrow> bool" where
  \<comment> \<open>\<^verbatim>\<open>s.isdigit()\<close>: false on the empty string.\<close>
  "isdigit s = (s \<noteq> [] \<and> list_all isdigit_char s)"

definition replace :: "char \<Rightarrow> string \<Rightarrow> string \<Rightarrow> string" where
  \<comment> \<open>\<^verbatim>\<open>s.replace(old, new)\<close> for a pattern \<open>old\<close> of one character.\<close>
  "replace old new s = concat (map (\<lambda>c. if c = old then new else [c]) s)"

definition startswith :: "string \<Rightarrow> string \<Rightarrow> bool" where
  "startswith s p = (take (length p) s = p)"

definition is_upper_char :: "char \<Rightarrow> bool" where
  "is_upper_char c =
     (let n = (of_char c :: nat)
      in (65 \<le> n \<and> n \<le> 90) \<or> (192 \<le> n \<and> n \<le> 222 \<and> n \<noteq> 215))"

definition is_lower_char :: "char \<Rightarrow> bool" where
  "is_lower_char c =
     (let n = (of_char c :: nat)
      in (97 \<le> n \<and> n \<le> 122) \<or> n = 170 \<or> n = 181 \<or> n = 186 \<or>
         (223 \<le> n \<and> n \<le> 255 \<and> n \<noteq> 247))"

definition lower_char :: "char \<Rightarrow> char" where
  \<comment> \<open>Adding 32 to the code point of an upper-case letter sets bit 5.\<close>
  "lower_char c =
     (if is_upper_char c
      then (case c of Char b0 b1 b2 b3 b4 b5 b6 b7 \<Rightarrow> Char b0 b1 b2 b3 b4 True b6 b7)
      else c)"

definition upper_char :: "char \<Rightarrow> char" where
  \<comment> \<open>The title-case form of a lower-case letter. Three letters of Latin-1 have a
      title-case form outside the range (0xB5, 0xDF, 0xFF): the model leaves them as
      they are.\<close>
  "upper_char c =
     (let n = (of_char c :: nat)
      in if (97 \<le> n \<and> n \<le> 122) \<or> (224 \<le> n \<and> n \<le> 254 \<and> n \<noteq> 247)
         then (case c of Char b0 b1 b2 b3 b4 b5 b6 b7 \<Rightarrow> Char b0 b1 b2 b3 b4 False b6 b7)
         else c)"

definition lower :: "string \<Rightarrow> string" where
  "lower s = map lower_char s"

fun title_from :: "bool \<Rightarrow> string \<Rightarrow> string" where
  "title_from prev_cased [] = []"
| "title_from prev_cased (c # cs) =
     (if is_lower_char c then (if prev_cased then c else upper_char c) # title_from True cs
      else if is_upper_char c then (if prev_cased then lower_char c else c) # title_from True cs
      else c # title_from False cs)"

definition title :: "string \<Rightarrow> string" where
  \<comment> \<open>\<^verbatim>\<open>s.title()\<close>\<close>
  "title s = title_from False s"

fun split_from :: "string \<Rightarrow> string \<Rightarrow> string list" where
  "split_from cur [] = (if cur = [] then [] else [cur])"
| "split_from cur (c # cs) =
     (if isspace c then (if cur = [] then split_from [] cs else cur # split_from [] cs)
      else split_from (cur @ [c]) cs)"

definition split_ws :: "string \<Rightarrow> string list" where
  \<comment> \<open>\<^verbatim>\<open>s.split()\<close>: the non-empty runs between white space.\<close>
  "split_ws s = split_from [] s"

fun split_sep_from :: "char \<Rightarrow> string \<Rightarrow> string \<Rightarrow> string list" where
  "split_sep_from sep cur [] = [cur]"
| "split_sep_from sep cur (c # cs) =
     (if c = sep then cur # split_sep_from sep [] cs else split_sep_from sep (cur @ [c]) cs)"

definition split_sep :: "char \<Rightarrow> string \<Rightarrow> string list" where
  \<comment> \<open>\<^verbatim>\<open>s.split(sep)\<close> for a separator of one character.\<close>
  "split_sep sep s = split_sep_from sep [] s"

definition split_once :: "char \<Rightarrow> string \<Rightarrow> string list" where
  \<comment> \<open>\<^verbatim>\<open>s.split(sep, maxsplit=1)\<close> for a separator of one character.\<close>
  "split_once sep s =
     (case dropWhile (\<lambda>c. c \<noteq> sep) s of
        [] \<Rightarrow> [s]
      | _ # rest \<Rightarrow> [takeWhile (\<lambda>c. c \<noteq> sep) s, rest])"

definition item :: "'a list \<Rightarrow> nat \<Rightarrow> py_error + 'a" where
  \<comment> \<open>\<^verbatim>\<open>xs[i]\<close> for a literal index \<open>i \<ge> 0\<close>.\<close>
  "item xs i = (if i < length xs then Inr (xs ! i) else Inl IndexError)"

definition join :: "string \<Rightarrow> string list \<Rightarrow> string" where
  \<comment> \<open>\<^verbatim>\<open>sep.join(xs)\<close>\<close>
  "join sep xs = (case xs of [] \<Rightarrow> [] | y # ys \<Rightarrow> y @ concat (map (\<lambda>x. sep @ x) ys))"

subsection \<open>Integers and their decimal text\<close>

text \<open>
  Python's integers are unbounded. The limit CPython puts on the number of digits of a
  decimal text (4300 by default) is not modelled; the ids of the program are 64-bit row
  ids.
\<close>

definition digit_char :: "nat \<Rightarrow> char" where
  "digit_char d = ''0123456789'' ! d"

fun str_nat :: "nat \<Rightarrow> string" where
  "str_nat n = (if n < 10 then [digit_char n] else str_nat (n div 10) @ [digit_char (n mod 10)])"

declare str_nat.simps [simp del]

definition str_int :: "int \<Rightarrow> string" where
  \<comment> \<open>\<^verbatim>\<open>str(n)\<close>, also what an f-string writes for \<^verbatim>\<open>{n}\<close>.\<close>
  "str_int n = (if n < 0 then CHR ''-'' # str_nat (nat (- n)) else str_nat (nat n))"

definition digit_val :: "char \<Rightarrow> nat" where
  "digit_val c = of_char c - 48"

fun parse_digits :: "nat \<Rightarrow> string \<Rightarrow> nat option" where
  "parse_digits acc [] = Some acc"
| "parse_digits acc (c # cs) =
     (if c = CHR ''_'' then
        (case cs of
           [] \<Rightarrow> None
         | d # ds \<Rightarrow> if is_decimal d then parse_digits (10 * acc + digit_val d) ds else None)
      else if is_decimal c then parse_digits (10 * acc + digit_val c) cs
      else None)"

definition parse_unsigned :: "string \<Rightarrow> nat option" where
  \<comment> \<open>Decimal digits, with single underscores allowed between two digits.\<close>
  "parse_unsigned s =
     (case s of
        [] \<Rightarrow> None
      | c # cs \<Rightarrow> if is_decimal c then parse_digits (digit_val c) cs else None)"

definition is_int_space :: "char \<Rightarrow> bool" where
  \<comment> \<open>The white space \<^verbatim>\<open>int\<close> drops around a literal: the six of ASCII, and the
      two of Latin-1 above it. The separators 0x1C to 0x1F, which \<^verbatim>\<open>str.strip\<close>
      removes, are not among them.\<close>
  "is_int_space c = (c \<in> set [CHR 0x09, CHR 0x0A, CHR 0x0B, CHR 0x0C, CHR 0x0D, CHR 0x20,
                                 CHR 0x85, CHR 0xA0])"

definition int_strip :: "string \<Rightarrow> string" where
  "int_strip s = rev (dropWhile is_int_space (rev (dropWhile is_int_space s)))"

definition int_of_str :: "string \<Rightarrow> py_error + int" where
  \<comment> \<open>\<^verbatim>\<open>int(s)\<close>: white space around the literal is dropped, one sign is allowed;
      anything else raises ValueError.\<close>
  "int_of_str s =
     (case int_strip s of
        [] \<Rightarrow> Inl ValueError
      | c # cs \<Rightarrow>
          if c = CHR ''-'' then
            (case parse_unsigned cs of None \<Rightarrow> Inl ValueError | Some n \<Rightarrow> Inr (- int n))
          else if c = CHR ''+'' then
            (case parse_unsigned cs of None \<Rightarrow> Inl ValueError | Some n \<Rightarrow> Inr (int n))
          else
            (case parse_unsigned (c # cs) of None \<Rightarrow> Inl ValueError | Some n \<Rightarrow> Inr (int n)))"

section \<open>The store (db.py)\<close>

text \<open>
  The two tables of \<^verbatim>\<open>_ensure_tables\<close>, as lists of rows in insertion order.
  \<^verbatim>\<open>events_seq\<close> is the counter SQLite keeps for the AUTOINCREMENT key of
  \<^verbatim>\<open>events\<close>. A new event gets the counter plus one (the end of the 64-bit range
  is not modelled, and every id passed to the store is taken to lie in that range:
  \<^verbatim>\<open>sqlite3\<close> raises OverflowError on a larger one). The surrogate key
  \<^verbatim>\<open>rsvp.id\<close> is read nowhere in the program and is left out of the rows. The clock (\<^verbatim>\<open>datetime.utcnow()\<close>, as ISO text) is
  the parameter \<open>now\<close> of the writing operations.
\<close>

record event_row =
  e_id :: int
  e_user_id :: int
  e_title :: string
  e_type :: string
  e_time :: string
  e_location :: string
  e_created_at :: string

record rsvp_row =
  r_event_id :: int
  r_user_id :: int
  r_status :: string
  r_updated_at :: string

record database =
  events :: "event_row list"
  rsvp :: "rsvp_row list"
  events_seq :: int

definition empty_database :: database where
  "empty_database = \<lparr>events = [], rsvp = [], events_seq = 0\<rparr>"

definition create_event ::
  "database \<Rightarrow> string \<Rightarrow> int \<Rightarrow> string \<Rightarrow> string \<Rightarrow> string \<Rightarrow> string \<Rightarrow> database \<times> int" where
  \<comment> \<open>Arguments after the clock in the order of the source: user id, title, event type,
      time, location. Returns the new state and \<^verbatim>\<open>cursor.lastrowid\<close>.\<close>
  "create_event d now user_id title_text event_type time_text location =
     (let new_id = events_seq d + 1;
          row = \<lparr>e_id = new_id, e_user_id = user_id, e_title = title_text,
                 e_type = event_type, e_time = time_text, e_location = location,
                 e_created_at = now\<rparr>
      in (d\<lparr>events := events d @ [row], events_seq := new_id\<rparr>, new_id))"

definition delete_event :: "database \<Rightarrow> int \<Rightarrow> int \<Rightarrow> database \<times> bool" where
  \<comment> \<open>\<^verbatim>\<open>DELETE FROM events WHERE id = ? AND user_id = ?\<close>; the foreign key of
      \<^verbatim>\<open>rsvp\<close> deletes the rows of every deleted event with it (ON DELETE CASCADE,
      foreign keys switched on by \<^verbatim>\<open>_get_connection\<close>). The result is
      \<^verbatim>\<open>cursor.rowcount > 0\<close>, which counts the rows of \<^verbatim>\<open>events\<close> only.\<close>
  "delete_event d event_id user_id =
     (let hit = (\<lambda>e. e_id e = event_id \<and> e_user_id e = user_id);
          deleted = filter hit (events d);
          gone = set (map e_id deleted)
      in (d\<lparr>events := filter (\<lambda>e. \<not> hit e) (events d),
             rsvp := filter (\<lambda>r. r_event_id r \<notin> gone) (rsvp d)\<rparr>,
          0 < length deleted))"

definition get_event :: "database \<Rightarrow> int \<Rightarrow> event_row option" where
  "get_event d event_id = find (\<lambda>e. e_id e = event_id) (events d)"

definition upsert_rsvp ::
  "database \<Rightarrow> string \<Rightarrow> int \<Rightarrow> int \<Rightarrow> string \<Rightarrow> py_error + database" where
  \<comment> \<open>INSERT ... ON CONFLICT(event_id, user_id) DO UPDATE. A row with the key is
      updated in place; otherwise the row is inserted, and the insert fails on the
      foreign key (\<^verbatim>\<open>sqlite3.IntegrityError\<close>) when the event does not exist.\<close>
  "upsert_rsvp d now event_id user_id status =
     (let hit = (\<lambda>r. r_event_id r = event_id \<and> r_user_id r = user_id)
      in if list_ex hit (rsvp d) then
           Inr (d\<lparr>rsvp := map (\<lambda>r. if hit r then r\<lparr>r_status := status, r_updated_at := now\<rparr>
                                     else r) (rsvp d)\<rparr>)
         else if list_ex (\<lambda>e. e_id e = event_id) (events d) then
           Inr (d\<lparr>rsvp := rsvp d @ [\<lparr>r_event_id = event_id, r_user_id = user_id,
                                      r_status = status, r_updated_at = now\<rparr>]\<rparr>)
         else Inl IntegrityError)"

definition get_rsvp :: "database \<Rightarrow> int \<Rightarrow> int \<Rightarrow> rsvp_row option" where
  "get_rsvp d event_id user_id =
     find (\<lambda>r. r_event_id r = event_id \<and> r_user_id r = user_id) (rsvp d)"

definition list_event_participants :: "database \<Rightarrow> int \<Rightarrow> rsvp_row list" where
  "list_event_participants d event_id = filter (\<lambda>r. r_event_id r = event_id) (rsvp d)"

definition group_by_status :: "rsvp_row list \<Rightarrow> (string \<times> nat) list" where
  \<comment> \<open>\<^verbatim>\<open>SELECT status, COUNT(*) ... GROUP BY status\<close>: one pair for each status that
      occurs. SQLite groups through a sort on the column, so the groups come in ascending
      order of the status (code point by code point, a prefix first).\<close>
  "group_by_status rows =
     map (\<lambda>s. (s, length (filter (\<lambda>r. r_status r = s) rows)))
       (sort (remdups (map r_status rows)))"

definition get_rsvp_counts :: "database \<Rightarrow> int \<Rightarrow> (string \<rightharpoonup> nat)" where
  "get_rsvp_counts d event_id =
     foldl (\<lambda>counts (status, total). counts(lower status \<mapsto> total))
       [''yes'' \<mapsto> 0, ''no'' \<mapsto> 0, ''maybe'' \<mapsto> 0]
       (group_by_status (filter (\<lambda>r. r_event_id r = event_id) (rsvp d)))"

text \<open>
  The constraints of the schema: the primary key of \<^verbatim>\<open>events\<close> with its counter,
  UNIQUE(event_id, user_id) and the foreign key of \<^verbatim>\<open>rsvp\<close>.
\<close>

definition rsvp_key :: "rsvp_row \<Rightarrow> int \<times> int" where
  "rsvp_key r = (r_event_id r, r_user_id r)"

definition foreign_key_ok :: "database \<Rightarrow> bool" where
  "foreign_key_ok d = (\<forall>r \<in> set (rsvp d). r_event_id r \<in> set (map e_id (events d)))"

definition schema_ok :: "database \<Rightarrow> bool" where
  "schema_ok d =
     (distinct (map e_id (events d)) \<and>
      (\<forall>e \<in> set (events d). e_id e \<le> events_seq d) \<and>
      distinct (map rsvp_key (rsvp d)) \<and>
      foreign_key_ok d)"

definition statuses_ok :: "database \<Rightarrow> bool" where
  \<comment> \<open>Every stored status is one of the three the controller writes.\<close>
  "statuses_ok d = (\<forall>r \<in> set (rsvp d). r_status r \<in> set [''yes'', ''no'', ''maybe''])"

section \<open>The bot (bot.py)\<close>

text \<open>
  The transport is the log of the calls made on \<^verbatim>\<open>bot\<close>, in order. What the
  program cannot decide is a parameter of the handlers: \<open>username\<close> is the name
  \<^verbatim>\<open>bot.get_me()\<close> reports (\<^verbatim>\<open>ensure_bot_username\<close> caches it), \<open>now\<close> is
  the clock, \<open>edit_ok\<close> says whether \<^verbatim>\<open>bot.edit_message_text\<close> returns rather
  than raises \<^verbatim>\<open>ApiTelegramException\<close>, and \<open>fmt\<close> writes a float with six
  decimals (\<^verbatim>\<open>{x:.6f}\<close>). Every other call on the transport is taken to return.
  A handler that raises has the value \<open>Inl\<close> of the exception.
\<close>

typedecl float64

record message =
  msg_message_id :: int
  msg_from_user_id :: int
  msg_chat_id :: int
  msg_chat_type :: string
  msg_content_type :: string
  msg_text :: "string option"
  msg_location :: "(float64 \<times> float64) option"

record callback_query =
  cq_id :: string
  cq_from_user_id :: int
  cq_data :: string
  cq_message :: message

type_synonym markup = "(string \<times> string) list list"

datatype bot_call =
    send_message int string "markup option"
  | reply_to message string
  | answer_callback_query string "string option" bool
  | edit_message_text string int int "markup option"

record EventCreationState =
  step_index :: nat
  data :: "string \<rightharpoonup> string"

record world =
  db :: database
  user_states :: "int \<rightharpoonup> EventCreationState"
  outbox :: "bot_call list"

definition emit :: "bot_call list \<Rightarrow> world \<Rightarrow> world" where
  "emit calls w = w\<lparr>outbox := outbox w @ calls\<rparr>"

definition and_then :: "py_error + 'a \<Rightarrow> ('a \<Rightarrow> py_error + 'b) \<Rightarrow> py_error + 'b" where
  "and_then x f = (case x of Inl e \<Rightarrow> Inl e | Inr v \<Rightarrow> f v)"

definition lookup :: "('k \<rightharpoonup> 'a) \<Rightarrow> 'k \<Rightarrow> py_error + 'a" where
  \<comment> \<open>\<^verbatim>\<open>d[key]\<close> on a dict\<close>
  "lookup d k = (case d k of None \<Rightarrow> Inl KeyError | Some v \<Rightarrow> Inr v)"

definition DEFAULT_TIME_TEXT :: string where
  "DEFAULT_TIME_TEXT = ''Tomorrow 19:00''"

definition steps :: "string list" where
  "steps = [''title'', ''location'', ''type'', ''time'']"

definition current_step :: "EventCreationState \<Rightarrow> py_error + string" where
  "current_step st = item steps (step_index st)"

definition advance :: "EventCreationState \<Rightarrow> EventCreationState" where
  "advance st = st\<lparr>step_index := step_index st + 1\<rparr>"

definition is_complete :: "EventCreationState \<Rightarrow> bool" where
  "is_complete st = (length steps \<le> step_index st)"

definition sym_pushpin :: string where
  "sym_pushpin = [CHR 0xF0, CHR 0x9F, CHR 0x93, CHR 0x8C]"

definition sym_dash :: string where
  "sym_dash = [CHR 0xE2, CHR 0x80, CHR 0x94]"

definition sym_arrow :: string where
  "sym_arrow = [CHR 0xE2, CHR 0x9E, CHR 0x9C]"

definition sym_check :: string where
  "sym_check = [CHR 0xE2, CHR 0x9C, CHR 0x85]"

definition sym_cross :: string where
  "sym_cross = [CHR 0xE2, CHR 0x9D, CHR 0x8C]"

definition sym_question :: string where
  "sym_question = [CHR 0xE2, CHR 0x9D, CHR 0x94]"

definition escape_html :: "string option \<Rightarrow> string" where
  "escape_html t =
     (let safe_text = (case t of None \<Rightarrow> [] | Some s \<Rightarrow> s)
      in replace (CHR ''>'') ''&gt;'' (replace (CHR ''<'') ''&lt;''
           (replace (CHR ''&'') ''&amp;'' safe_text)))"

definition get_invite_link :: "string \<Rightarrow> int \<Rightarrow> string" where
  "get_invite_link username event_id =
     ''https://t.me/'' @ username @ ''?start=join_'' @ str_int event_id"

definition build_rsvp_markup :: "int \<Rightarrow> markup" where
  "build_rsvp_markup event_id =
     [map (\<lambda>(label, status). (label, ''rsvp:'' @ str_int event_id @ '':'' @ status))
        [(sym_check @ '' Yes'', ''yes''),
         (sym_cross @ '' No'', ''no''),
         (sym_question @ '' Maybe'', ''maybe'')]]"

definition build_event_text ::
  "string \<Rightarrow> event_row \<Rightarrow> string option \<Rightarrow> (string \<rightharpoonup> nat) option \<Rightarrow> bool \<Rightarrow> bool \<Rightarrow> string" where
  \<comment> \<open>Arguments after the bot's name in the order of the source: event, user_status,
      counts, include_invite, show_status.\<close>
  "build_event_text username event user_status counts include_invite show_status =
     (let get = (\<lambda>c k. case c k of None \<Rightarrow> 0 | Some n \<Rightarrow> n);
          lines0 =
            [sym_pushpin @ '' <b>'' @ escape_html (Some (e_title event)) @ ''</b>'',
             ''Type: '' @ escape_html (Some (e_type event)),
             ''Time: '' @ escape_html (Some (e_time event)),
             ''Location: '' @ escape_html (Some (e_location event))];
          lines1 =
            (case counts of
               None \<Rightarrow> lines0
             | Some c \<Rightarrow>
                 lines0 @ [''RSVPs '' @ sym_dash @ '' Yes: '' @ str_nat (get c ''yes'') @
                           '' | No: '' @ str_nat (get c ''no'') @
                           '' | Maybe: '' @ str_nat (get c ''maybe'')]);
          status_text =
            (case user_status of
               None \<Rightarrow> ''Not set''
             | Some s \<Rightarrow> if s = [] then ''Not set'' else title s);
          lines2 = (if show_status then lines1 @ [''Your RSVP: '' @ status_text] else lines1);
          lines3 =
            (if include_invite
             then lines2 @ [''Invite friends '' @ sym_arrow @ '' '' @
                            escape_html (Some (get_invite_link username (e_id event)))]
             else lines2)
      in join ''\<newline>'' lines3)"

definition prompt_for_step :: "int \<Rightarrow> string \<Rightarrow> bot_call list" where
  "prompt_for_step chat_id step =
     (if step = ''title'' then
        [send_message chat_id
           (''Let's plan tomorrow! What's the event name or short description?'' @
            ''\<newline>\<newline>Send /cancel to stop anytime.'') None]
      else if step = ''location'' then
        [send_message chat_id
           ''Where will it happen? Send a location pin or type the place.'' None]
      else if step = ''type'' then
        [send_message chat_id ''What type of event is it? (e.g., dinner, movie, walk)'' None]
      else if step = ''time'' then
        [send_message chat_id
           (''What time tomorrow? Use 24-hour format like 19:00. Leave empty for '' @
            DEFAULT_TIME_TEXT @ ''.'') None]
      else [])"

definition reset_state :: "world \<Rightarrow> int \<Rightarrow> world" where
  "reset_state w user_id = w\<lparr>user_states := (user_states w)(user_id := None)\<rparr>"

definition user_has_access :: "database \<Rightarrow> event_row \<Rightarrow> int \<Rightarrow> bool" where
  "user_has_access d event user_id =
     (if e_user_id event = user_id then True
      else get_rsvp d (e_id event) user_id \<noteq> None)"

definition handle_join_event ::
  "string \<Rightarrow> string \<Rightarrow> world \<Rightarrow> message \<Rightarrow> int \<Rightarrow> py_error + world" where
  "handle_join_event username now w m event_id =
     (if msg_chat_type m \<noteq> ''private'' then
        Inr (emit [reply_to m ''Please message me privately to join this event.''] w)
      else
        case get_event (db w) event_id of
          None \<Rightarrow> Inr (emit [reply_to m ''Event not found or already deleted.''] w)
        | Some event \<Rightarrow>
            let user_id = msg_from_user_id m;
                rsvp_row = get_rsvp (db w) event_id user_id;
                status = (case rsvp_row of Some r \<Rightarrow> r_status r | None \<Rightarrow> ''maybe'')
            in and_then
                 (if rsvp_row = None then upsert_rsvp (db w) now event_id user_id status
                  else Inr (db w))
                 (\<lambda>d.
                    let counts = get_rsvp_counts d event_id;
                        body = ''You're invited to an event for tomorrow!\<newline>\<newline>'' @
                               build_event_text username event (Some status) (Some counts)
                                 False True
                    in Inr (emit [send_message (msg_chat_id m) body
                                    (Some (build_rsvp_markup event_id))]
                              (w\<lparr>db := d\<rparr>))))"

definition finish_event_creation ::
  "string \<Rightarrow> string \<Rightarrow> world \<Rightarrow> int \<Rightarrow> int \<Rightarrow> EventCreationState \<Rightarrow> py_error + world" where
  "finish_event_creation username now w user_id chat_id state =
     and_then (lookup (data state) ''title'') (\<lambda>title_text.
     and_then (lookup (data state) ''type'') (\<lambda>event_type.
     and_then (lookup (data state) ''time'') (\<lambda>time_text.
     and_then (lookup (data state) ''location'') (\<lambda>location.
       let (d, event_id) =
             create_event (db w) now user_id title_text event_type time_text location;
           w1 = reset_state (w\<lparr>db := d\<rparr>) user_id
       in case get_event d event_id of
            None \<Rightarrow> Inl TypeError
          | Some event \<Rightarrow>
              let counts = get_rsvp_counts d event_id;
                  message_text =
                    ''Event saved! Share it with friends.\<newline>\<newline>'' @
                    build_event_text username event None (Some counts) True True
              in Inr (emit [send_message chat_id message_text
                              (Some (build_rsvp_markup event_id))] w1)))))"

definition start_event_id :: "string \<Rightarrow> py_error + int" where
  \<comment> \<open>The body of the \<^verbatim>\<open>try\<close> of \<^verbatim>\<open>handle_start\<close>:
      \<^verbatim>\<open>int(parts[1].split("_", maxsplit=1)[1])\<close> on \<^verbatim>\<open>parts[1]\<close>.\<close>
  "start_event_id arg = and_then (item (split_once (CHR ''_'') arg) 1) int_of_str"

definition handle_start ::
  "string \<Rightarrow> string \<Rightarrow> world \<Rightarrow> message \<Rightarrow> py_error + world" where
  "handle_start username now w m =
     (case msg_text m of
        None \<Rightarrow> Inl AttributeError
      | Some t \<Rightarrow>
          let parts = split_ws t
          in if 1 < length parts \<and> startswith (parts ! 1) ''join_'' then
               (case start_event_id (parts ! 1) of
                  Inr event_id \<Rightarrow> handle_join_event username now w m event_id
                | Inl e \<Rightarrow>
                    if e = IndexError \<or> e = ValueError
                    then Inr (emit [reply_to m ''Invalid invitation link.''] w)
                    else Inl e)
             else
               Inr (emit [send_message (msg_chat_id m)
                            (''Hi! I'm Tomorrow Planner. Use /new to create an event for '' @
                             ''tomorrow or /help for all commands.'') None] w))"

definition handle_new :: "world \<Rightarrow> message \<Rightarrow> world" where
  "handle_new w m =
     (if msg_chat_type m \<noteq> ''private'' then
        emit [reply_to m ''Please start a private chat with me to create events.''] w
      else
        emit (prompt_for_step (msg_chat_id m) ''title'')
          (w\<lparr>user_states := (user_states w)(msg_from_user_id m \<mapsto>
                \<lparr>step_index = 0, data = Map.empty\<rparr>)\<rparr>))"

definition handle_cancel :: "world \<Rightarrow> message \<Rightarrow> world" where
  "handle_cancel w m =
     (if user_states w (msg_from_user_id m) \<noteq> None then
        emit [reply_to m ''Event creation cancelled.''] (reset_state w (msg_from_user_id m))
      else emit [reply_to m ''Nothing to cancel.''] w)"

definition time_value :: "string option \<Rightarrow> string" where
  \<comment> \<open>The value \<^verbatim>\<open>handle_event_creation\<close> computes at the time step from
      \<^verbatim>\<open>message.text\<close>.\<close>
  "time_value t =
     (let user_text = (case t of None \<Rightarrow> [] | Some s \<Rightarrow> if s = [] then [] else strip s)
      in if user_text = [] then DEFAULT_TIME_TEXT
         else if length user_text = 5 \<and> user_text ! 2 = CHR '':'' \<and>
                 isdigit (replace (CHR '':'') [] user_text)
         then ''Tomorrow '' @ user_text
         else user_text)"

definition blank :: "string option \<Rightarrow> bool" where
  \<comment> \<open>\<^verbatim>\<open>not message.text or not message.text.strip()\<close>\<close>
  "blank t = (case t of None \<Rightarrow> True | Some s \<Rightarrow> s = [] \<or> strip s = [])"

definition store_and_advance ::
  "world \<Rightarrow> message \<Rightarrow> EventCreationState \<Rightarrow> string \<Rightarrow> string \<Rightarrow> py_error + world" where
  \<comment> \<open>The three lines the first three steps share: \<^verbatim>\<open>state.data[step] = v\<close>,
      \<^verbatim>\<open>state.advance()\<close>, \<^verbatim>\<open>prompt_for_step(chat_id, state.current_step)\<close>. The
      state is the object held in \<^verbatim>\<open>user_states\<close>, so the entry changes with it.\<close>
  "store_and_advance w m state step v =
     (let state1 = advance (state\<lparr>data := (data state)(step \<mapsto> v)\<rparr>)
      in and_then (current_step state1) (\<lambda>next_step.
           Inr (emit (prompt_for_step (msg_chat_id m) next_step)
                  (w\<lparr>user_states := (user_states w)(msg_from_user_id m \<mapsto> state1)\<rparr>))))"

definition handle_event_creation ::
  "(float64 \<Rightarrow> string) \<Rightarrow> string \<Rightarrow> string \<Rightarrow> world \<Rightarrow> message \<Rightarrow> py_error + world" where
  "handle_event_creation fmt username now w m =
     and_then (lookup (user_states w) (msg_from_user_id m)) (\<lambda>state.
     and_then (current_step state) (\<lambda>step.
       if step = ''title'' then
         (if blank (msg_text m) then
            Inr (emit [reply_to m ''Please send a short title or description for the event.''] w)
          else store_and_advance w m state ''title'' (strip (the (msg_text m))))
       else if step = ''location'' then
         (if msg_content_type m = ''location'' \<and> msg_location m \<noteq> None then
            (case the (msg_location m) of (lat, lon) \<Rightarrow>
               store_and_advance w m state ''location''
                 (''Pin: '' @ fmt lat @ '', '' @ fmt lon))
          else if \<not> blank (msg_text m) then
            store_and_advance w m state ''location'' (strip (the (msg_text m)))
          else Inr (emit [reply_to m ''Send a location pin or type the location.''] w))
       else if step = ''type'' then
         (if blank (msg_text m) then
            Inr (emit [reply_to m
                         ''Please tell me the event type (e.g., dinner, movie, walk).''] w)
          else store_and_advance w m state ''type'' (strip (the (msg_text m))))
       else if step = ''time'' then
         (if msg_content_type m \<noteq> ''text'' then
            Inr (emit [reply_to m ''Please type the time, for example 19:30.''] w)
          else
            let state1 = state\<lparr>data := (data state)(''time'' \<mapsto> time_value (msg_text m))\<rparr>
            in finish_event_creation username now
                 (w\<lparr>user_states := (user_states w)(msg_from_user_id m \<mapsto> state1)\<rparr>)
                 (msg_from_user_id m) (msg_chat_id m) state1)
       else Inr w))"

definition handle_view_callback :: "string \<Rightarrow> world \<Rightarrow> callback_query \<Rightarrow> int \<Rightarrow> world" where
  "handle_view_callback username w call event_id =
     (case get_event (db w) event_id of
        None \<Rightarrow> emit [answer_callback_query (cq_id call) (Some ''Event not found.'') True] w
      | Some event \<Rightarrow>
          if \<not> user_has_access (db w) event (cq_from_user_id call) then
            emit [answer_callback_query (cq_id call)
                    (Some ''You do not have access to this event.'') True] w
          else
            let counts = get_rsvp_counts (db w) event_id;
                rsvp_row = get_rsvp (db w) event_id (cq_from_user_id call);
                body = build_event_text username event (map_option r_status rsvp_row)
                         (Some counts) (e_user_id event = cq_from_user_id call) True
            in emit [answer_callback_query (cq_id call) None False,
                     send_message (msg_chat_id (cq_message call)) body
                       (Some (build_rsvp_markup event_id))] w)"

definition handle_delete_callback :: "bool \<Rightarrow> world \<Rightarrow> callback_query \<Rightarrow> int \<Rightarrow> world" where
  "handle_delete_callback edit_ok w call event_id =
     (let denied = emit [answer_callback_query (cq_id call)
                           (Some ''You can only delete your own events.'') True] w
      in case get_event (db w) event_id of
           None \<Rightarrow> denied
         | Some event \<Rightarrow>
             if e_user_id event \<noteq> cq_from_user_id call then denied
             else
               let (d, deleted) = delete_event (db w) event_id (cq_from_user_id call)
               in if deleted then
                    emit [answer_callback_query (cq_id call) (Some ''Event deleted.'') False,
                          if edit_ok
                          then edit_message_text ''Event deleted.''
                                 (msg_chat_id (cq_message call))
                                 (msg_message_id (cq_message call)) None
                          else send_message (msg_chat_id (cq_message call))
                                 ''Event deleted.'' None]
                      (w\<lparr>db := d\<rparr>)
                  else
                    emit [answer_callback_query (cq_id call) (Some ''Event not found.'') True]
                      (w\<lparr>db := d\<rparr>))"

definition handle_rsvp_callback ::
  "string \<Rightarrow> bool \<Rightarrow> string \<Rightarrow> world \<Rightarrow> callback_query \<Rightarrow> int \<Rightarrow> string \<Rightarrow> py_error + world" where
  "handle_rsvp_callback username edit_ok now w call event_id status =
     (if status \<notin> set [''yes'', ''no'', ''maybe''] then
        Inr (emit [answer_callback_query (cq_id call) (Some ''Unknown option.'') True] w)
      else
        case get_event (db w) event_id of
          None \<Rightarrow>
            Inr (emit [answer_callback_query (cq_id call) (Some ''Event not found.'') True] w)
        | Some event \<Rightarrow>
            if \<not> user_has_access (db w) event (cq_from_user_id call) then
              Inr (emit [answer_callback_query (cq_id call)
                           (Some ''Join via the invite link first.'') True] w)
            else
              and_then (upsert_rsvp (db w) now event_id (cq_from_user_id call) status) (\<lambda>d.
                let counts = get_rsvp_counts d event_id;
                    body = build_event_text username event (Some status) (Some counts)
                             (e_user_id event = cq_from_user_id call) True;
                    chat_id = msg_chat_id (cq_message call)
                in Inr (emit [if edit_ok
                              then edit_message_text body chat_id
                                     (msg_message_id (cq_message call))
                                     (Some (build_rsvp_markup event_id))
                              else send_message chat_id body
                                     (Some (build_rsvp_markup event_id)),
                              answer_callback_query (cq_id call)
                                (Some (''RSVP set to '' @ title status @ ''.'')) False]
                          (w\<lparr>db := d\<rparr>))))"

definition callback_event_id :: "string \<Rightarrow> py_error + int" where
  \<comment> \<open>The body of the \<^verbatim>\<open>try\<close> of the view and delete branches:
      \<^verbatim>\<open>int(call.data.split(":", maxsplit=1)[1])\<close>.\<close>
  "callback_event_id payload = and_then (item (split_once (CHR '':'') payload) 1) int_of_str"

definition handle_callbacks ::
  "string \<Rightarrow> bool \<Rightarrow> string \<Rightarrow> world \<Rightarrow> callback_query \<Rightarrow> py_error + world" where
  "handle_callbacks username edit_ok now w call =
     (let invalid = (\<lambda>msg e. if e = ValueError
                              then Inr (emit [answer_callback_query (cq_id call) (Some msg) True] w)
                              else Inl e)
      in if startswith (cq_data call) ''view:'' then
           (case callback_event_id (cq_data call) of
              Inl e \<Rightarrow> invalid ''Invalid event id.'' e
            | Inr event_id \<Rightarrow> Inr (handle_view_callback username w call event_id))
         else if startswith (cq_data call) ''delete:'' then
           (case callback_event_id (cq_data call) of
              Inl e \<Rightarrow> invalid ''Invalid event id.'' e
            | Inr event_id \<Rightarrow> Inr (handle_delete_callback edit_ok w call event_id))
         else if startswith (cq_data call) ''rsvp:'' then
           (let parts = split_sep (CHR '':'') (cq_data call)
            in if length parts \<noteq> 3 then
                 Inr (emit [answer_callback_query (cq_id call)
                              (Some ''Invalid RSVP data.'') True] w)
               else
                 case int_of_str (parts ! 1) of
                   Inl e \<Rightarrow> invalid ''Invalid RSVP data.'' e
                 | Inr event_id \<Rightarrow>
                     handle_rsvp_callback username edit_ok now w call event_id (parts ! 2))
         else Inr (emit [answer_callback_query (cq_id call) None False] w))"

text \<open>
  The invariant of the process: the store satisfies the constraints of the schema and
  holds only the three statuses.
\<close>

definition store_ok :: "world \<Rightarrow> bool" where
  "store_ok w = (schema_ok (db w) \<and> statuses_ok (db w))"

section \<open>Example states\<close>

text \<open>The store after one event has been created in the empty store.\<close>

definition one_event :: database where
  "one_event = fst (create_event empty_database ''2026-11-04T09:00:00'' 10
                      ''Board games'' ''game night'' ''Tomorrow 19:00'' ''Alex's place'')"

text \<open>The same store with two responders on the event.\<close>

definition two_rsvps :: database where
  "two_rsvps = one_event\<lparr>rsvp :=
     [\<lparr>r_event_id = 1, r_user_id = 20, r_status = ''maybe'', r_updated_at = ''2026-11-04T10:00:00''\<rparr>,
      \<lparr>r_event_id = 1, r_user_id = 30, r_status = ''yes'', r_updated_at = ''2026-11-04T10:05:00''\<rparr>]\<rparr>"

text \<open>
  A text message in a private chat (there the chat id is the user's id), a button press
  under such a message, and a process that holds a given store and no conversation.
\<close>

definition private_text :: "int \<Rightarrow> string \<Rightarrow> message" where
  "private_text user_id t =
     \<lparr>msg_message_id = 1, msg_from_user_id = user_id, msg_chat_id = user_id,
      msg_chat_type = ''private'', msg_content_type = ''text'', msg_text = Some t,
      msg_location = None\<rparr>"

definition button_press :: "int \<Rightarrow> string \<Rightarrow> callback_query" where
  "button_press user_id payload =
     \<lparr>cq_id = ''1'', cq_from_user_id = user_id, cq_data = payload,
      cq_message = private_text user_id []\<rparr>"

definition idle :: "database \<Rightarrow> world" where
  "idle d = \<lparr>db = d, user_states = Map.empty, outbox = []\<rparr>"

section \<open>Properties of the store\<close>

lemma schema_ok_empty: "schema_ok empty_database"
  by (simp add: schema_ok_def foreign_key_ok_def empty_database_def)


lemma get_event_None: "(get_event d i = None) = (i \<notin> set (map e_id (events d)))"
  by (auto simp: get_event_def find_None_iff)

lemma list_ex_event: "list_ex (\<lambda>e. e_id e = i) (events d) = (get_event d i \<noteq> None)"
  by (auto simp: get_event_None list_ex_iff)

lemma get_rsvp_None:
  "(get_rsvp d i u = None) = (\<not> list_ex (\<lambda>r. r_event_id r = i \<and> r_user_id r = u) (rsvp d))"
  by (auto simp: get_rsvp_def find_None_iff list_ex_iff)

lemma distinct_key_filter:
  "distinct (map rsvp_key rows) \<Longrightarrow>
   length (filter (\<lambda>r. r_event_id r = i \<and> r_user_id r = u) rows) \<le> 1"
proof (induction rows)
  case Nil
  then show ?case by simp
next
  case (Cons r rows)
  show ?case
  proof (cases "r_event_id r = i \<and> r_user_id r = u")
    case True
    with Cons.prems have "\<forall>x \<in> set rows. \<not> (r_event_id x = i \<and> r_user_id x = u)"
      by (auto simp: rsvp_key_def image_iff)
    then have "filter (\<lambda>r. r_event_id r = i \<and> r_user_id r = u) rows = []"
      by (simp add: filter_empty_conv)
    with True show ?thesis by simp
  next
    case False
    with Cons show ?thesis by auto
  qed
qed

lemma upsert_rsvp_insert:
  assumes "get_rsvp d i u = None" and "get_event d i \<noteq> None"
  shows "upsert_rsvp d now i u s =
           Inr (d\<lparr>rsvp := rsvp d @ [\<lparr>r_event_id = i, r_user_id = u, r_status = s,
                                      r_updated_at = now\<rparr>]\<rparr>)"
  using assms by (simp add: upsert_rsvp_def get_rsvp_None list_ex_event)

lemma upsert_rsvp_update:
  assumes "get_rsvp d i u \<noteq> None"
  shows "upsert_rsvp d now i u s =
           Inr (d\<lparr>rsvp := map (\<lambda>r. if r_event_id r = i \<and> r_user_id r = u
                                     then r\<lparr>r_status := s, r_updated_at := now\<rparr> else r)
                             (rsvp d)\<rparr>)"
  using assms by (simp add: upsert_rsvp_def get_rsvp_None)

lemma upsert_rsvp_missing:
  assumes "get_rsvp d i u = None" and "get_event d i = None"
  shows "upsert_rsvp d now i u s = Inl IntegrityError"
  using assms by (simp add: upsert_rsvp_def get_rsvp_None list_ex_event)

lemma rsvp_key_update:
  "rsvp_key \<circ> (\<lambda>r. if P r then r\<lparr>r_status := s, r_updated_at := t\<rparr> else r) = rsvp_key"
  by (auto simp: rsvp_key_def fun_eq_iff)

lemma schema_ok_upsert:
  assumes "schema_ok d" and "upsert_rsvp d now i u s = Inr d1"
  shows "schema_ok d1"
proof (cases "get_rsvp d i u = None")
  case True
  show ?thesis
  proof (cases "get_event d i = None")
    case True
    with \<open>get_rsvp d i u = None\<close> assms(2) show ?thesis
      by (simp add: upsert_rsvp_missing)
  next
    case False
    with True assms(2)
    have d1: "d1 = d\<lparr>rsvp := rsvp d @ [\<lparr>r_event_id = i, r_user_id = u, r_status = s,
                                        r_updated_at = now\<rparr>]\<rparr>"
      by (simp add: upsert_rsvp_insert)
    from True have "(i, u) \<notin> set (map rsvp_key (rsvp d))"
      by (auto simp: get_rsvp_None list_ex_iff rsvp_key_def)
    moreover from False have "i \<in> set (map e_id (events d))"
      by (simp add: get_event_None)
    ultimately show ?thesis
      using assms(1) by (auto simp: d1 schema_ok_def foreign_key_ok_def rsvp_key_def)
  qed
next
  case False
  with assms(2)
  have d1: "d1 = d\<lparr>rsvp := map (\<lambda>r. if r_event_id r = i \<and> r_user_id r = u
                                     then r\<lparr>r_status := s, r_updated_at := now\<rparr> else r)
                             (rsvp d)\<rparr>"
    by (simp add: upsert_rsvp_update)
  show ?thesis
    using assms(1) by (auto simp: d1 schema_ok_def foreign_key_ok_def rsvp_key_update)
qed

lemma schema_ok_create:
  assumes "schema_ok d"
  shows "schema_ok (fst (create_event d now u t ty tm l))"
  using assms
  by (fastforce simp: create_event_def schema_ok_def foreign_key_ok_def Let_def)

lemma foreign_key_ok_delete:
  assumes "foreign_key_ok d"
  shows "foreign_key_ok (fst (delete_event d i u))"
  unfolding foreign_key_ok_def
proof
  fix r
  assume r: "r \<in> set (rsvp (fst (delete_event d i u)))"
  then have mem: "r \<in> set (rsvp d)"
    and keep: "r_event_id r \<notin> e_id ` {e \<in> set (events d). e_id e = i \<and> e_user_id e = u}"
    by (auto simp: delete_event_def Let_def)
  from mem assms obtain e where e: "e \<in> set (events d)" "e_id e = r_event_id r"
    by (auto simp: foreign_key_ok_def)
  with keep have "\<not> (e_id e = i \<and> e_user_id e = u)"
    by force
  with e show "r_event_id r \<in> set (map e_id (events (fst (delete_event d i u))))"
    by (force simp: delete_event_def Let_def)
qed

lemma schema_ok_delete:
  assumes "schema_ok d"
  shows "schema_ok (fst (delete_event d i u))"
proof -
  have "foreign_key_ok (fst (delete_event d i u))"
    using assms by (simp add: schema_ok_def foreign_key_ok_delete)
  moreover have "distinct (map e_id (events (fst (delete_event d i u))))"
    and "distinct (map rsvp_key (rsvp (fst (delete_event d i u))))"
    and "\<forall>e \<in> set (events (fst (delete_event d i u))). e_id e \<le> events_seq (fst (delete_event d i u))"
    using assms by (auto simp: delete_event_def schema_ok_def Let_def distinct_map_filter)
  ultimately show ?thesis
    by (simp add: schema_ok_def)
qed


lemma find_Some_mem: "find P xs = Some x \<Longrightarrow> P x \<and> x \<in> set xs"
  by (induction xs) (auto split: if_splits)

lemma find_append_cases:
  "find P (xs @ ys) = (case find P xs of None \<Rightarrow> find P ys | Some x \<Rightarrow> Some x)"
  by (induction xs) auto

lemma find_map_update:
  "find P (map (\<lambda>r. if P r then f r else r) xs) = map_option f (find P xs)"
  if "\<And>r. P r \<Longrightarrow> P (f r)"
  using that by (induction xs) auto

lemma filter_map_update:
  "length (filter P (map (\<lambda>r. if P r then f r else r) xs)) = length (filter P xs)"
  if "\<And>r. P r \<Longrightarrow> P (f r)"
  using that by (induction xs) auto

lemma upsert_rsvp_result:
  assumes "schema_ok d" and "upsert_rsvp d now i u s = Inr d1"
  shows "length (filter (\<lambda>r. r_event_id r = i \<and> r_user_id r = u) (rsvp d1)) = 1"
    and "map_option r_status (get_rsvp d1 i u) = Some s"
    and "map_option r_updated_at (get_rsvp d1 i u) = Some now"
    and "events d1 = events d"
    and "get_event d1 = get_event d"
proof -
  let ?hit = "\<lambda>r. r_event_id r = i \<and> r_user_id r = u"
  let ?upd = "\<lambda>r. r\<lparr>r_status := s, r_updated_at := now\<rparr>"
  have "length (filter ?hit (rsvp d1)) = 1 \<and> map_option r_status (get_rsvp d1 i u) = Some s \<and>
        map_option r_updated_at (get_rsvp d1 i u) = Some now \<and> events d1 = events d"
  proof (cases "get_rsvp d i u = None")
    case True
    show ?thesis
    proof (cases "get_event d i = None")
      case True
      with \<open>get_rsvp d i u = None\<close> assms(2) show ?thesis
        by (simp add: upsert_rsvp_missing)
    next
      case False
      with True assms(2)
      have d1: "d1 = d\<lparr>rsvp := rsvp d @ [\<lparr>r_event_id = i, r_user_id = u, r_status = s,
                                          r_updated_at = now\<rparr>]\<rparr>"
        by (simp add: upsert_rsvp_insert)
      from True have none: "filter ?hit (rsvp d) = []" and "find ?hit (rsvp d) = None"
        by (auto simp: get_rsvp_def find_None_iff filter_empty_conv)
      then show ?thesis
        by (simp add: d1 get_rsvp_def find_append_cases)
    qed
  next
    case False
    with assms(2)
    have d1: "d1 = d\<lparr>rsvp := map (\<lambda>r. if ?hit r then ?upd r else r) (rsvp d)\<rparr>"
      by (simp add: upsert_rsvp_update)
    from False obtain r where r: "find ?hit (rsvp d) = Some r"
      by (auto simp: get_rsvp_def)
    then have "filter ?hit (rsvp d) \<noteq> []"
      by (auto simp: filter_empty_conv dest: find_Some_mem)
    moreover have "length (filter ?hit (rsvp d)) \<le> 1"
      using assms(1) distinct_key_filter [of "rsvp d" i u] by (simp add: schema_ok_def)
    ultimately have one: "length (filter ?hit (rsvp d)) = 1"
      by (cases "filter ?hit (rsvp d)") auto
    have "length (filter ?hit (rsvp d1)) = length (filter ?hit (rsvp d))"
      unfolding d1 using filter_map_update [where P = ?hit and f = ?upd and xs = "rsvp d"]
      by simp
    moreover have "find ?hit (rsvp d1) = map_option ?upd (find ?hit (rsvp d))"
      unfolding d1 using find_map_update [where P = ?hit and f = ?upd and xs = "rsvp d"]
      by simp
    ultimately show ?thesis
      using one r by (simp add: get_rsvp_def d1)
  qed
  then show "length (filter ?hit (rsvp d1)) = 1"
    and "map_option r_status (get_rsvp d1 i u) = Some s"
    and "map_option r_updated_at (get_rsvp d1 i u) = Some now"
    and ev: "events d1 = events d"
    by simp_all
  then show "get_event d1 = get_event d"
    by (simp add: get_event_def fun_eq_iff)
qed

lemma upsert_rsvp_succeeds:
  assumes "get_event d i = Some e"
  shows "\<exists>d1. upsert_rsvp d now i u s = Inr d1"
  using assms by (cases "get_rsvp d i u = None") (simp_all add: upsert_rsvp_insert upsert_rsvp_update)

text \<open>
  Claim C2, as amended. For every event that exists in the store, every responder and every
  pair of statuses \<open>s1\<close> then \<open>s2\<close>: both calls of \<^verbatim>\<open>upsert_rsvp\<close> for the same
  (event, responder) key return, the store then holds exactly one \<^verbatim>\<open>rsvp\<close> row for
  the key, and the row carries the status and the time stamp of the second call. The
  claim as written ranges over every event id: for an id with no event the insert fails on
  the foreign key and no row is stored (the counterexample below).
\<close>

theorem upsert_rsvp_twice:
  assumes "schema_ok d" and "get_event d event_id = Some e"
  shows "\<exists>d1 d2. upsert_rsvp d now1 event_id user_id s1 = Inr d1 \<and>
           upsert_rsvp d1 now2 event_id user_id s2 = Inr d2 \<and>
           length (filter (\<lambda>r. r_event_id r = event_id \<and> r_user_id r = user_id) (rsvp d2)) = 1 \<and>
           map_option r_status (get_rsvp d2 event_id user_id) = Some s2 \<and>
           map_option r_updated_at (get_rsvp d2 event_id user_id) = Some now2"
proof -
  from assms(2) obtain d1 where d1: "upsert_rsvp d now1 event_id user_id s1 = Inr d1"
    using upsert_rsvp_succeeds by blast
  with assms(1) have ok1: "schema_ok d1" and "get_event d1 = get_event d"
    by (simp_all add: schema_ok_upsert upsert_rsvp_result(5))
  with assms(2) obtain d2 where d2: "upsert_rsvp d1 now2 event_id user_id s2 = Inr d2"
    using upsert_rsvp_succeeds by metis
  from upsert_rsvp_result(1-3) [OF ok1 d2] d1 d2 show ?thesis
    by blast
qed

lemma one_event_eq:
  "one_event = \<lparr>events = [\<lparr>e_id = 1, e_user_id = 10, e_title = ''Board games'',
                            e_type = ''game night'', e_time = ''Tomorrow 19:00'',
                            e_location = ''Alex's place'',
                            e_created_at = ''2026-11-04T09:00:00''\<rparr>],
                 rsvp = [], events_seq = 1\<rparr>"
  by (simp add: one_event_def create_event_def empty_database_def)

theorem upsert_rsvp_twice_witness:
  "\<exists>d1 d2. upsert_rsvp one_event ''2026-11-04T10:00:00'' 1 20 ''maybe'' = Inr d1 \<and>
     upsert_rsvp d1 ''2026-11-04T11:00:00'' 1 20 ''no'' = Inr d2 \<and>
     length (filter (\<lambda>r. r_event_id r = 1 \<and> r_user_id r = 20) (rsvp d2)) = 1 \<and>
     map_option r_status (get_rsvp d2 1 20) = Some ''no'' \<and>
     map_option r_updated_at (get_rsvp d2 1 20) = Some ''2026-11-04T11:00:00''"
proof -
  have ok: "schema_ok one_event"
    by (simp add: one_event_eq schema_ok_def foreign_key_ok_def)
  have ev: "get_event one_event 1 = Some (hd (events one_event))"
    by (simp add: one_event_eq get_event_def)
  show ?thesis
    using upsert_rsvp_twice [OF ok ev] by simp
qed

theorem upsert_rsvp_unknown_event_counterexample:
  "upsert_rsvp empty_database ''2026-11-04T10:00:00'' 1 20 ''yes'' = Inl IntegrityError \<and>
   upsert_rsvp empty_database ''2026-11-04T11:00:00'' 1 20 ''no'' = Inl IntegrityError \<and>
   length (filter (\<lambda>r. r_event_id r = 1 \<and> r_user_id r = 20) (rsvp empty_database)) = 0"
  by (simp add: upsert_rsvp_def empty_database_def)

lemma delete_event_by_organizer:
  assumes "schema_ok d" and "get_event d i = Some e"
  shows "delete_event d i (e_user_id e) =
           (d\<lparr>events := filter (\<lambda>x. e_id x \<noteq> i) (events d),
              rsvp := filter (\<lambda>r. r_event_id r \<noteq> i) (rsvp d)\<rparr>, True)"
proof -
  from assms(2) have e: "e \<in> set (events d)" "e_id e = i"
    using find_Some_mem [of "\<lambda>x. e_id x = i" "events d" e] by (simp_all add: get_event_def)
  from assms(1) have dist: "distinct (map e_id (events d))"
    by (simp add: schema_ok_def)
  have same: "x = e" if "x \<in> set (events d)" "e_id x = i" for x
    using that e dist by (auto simp: distinct_map inj_on_def)
  let ?hit = "\<lambda>x. e_id x = i \<and> e_user_id x = e_user_id e"
  have hit_iff: "?hit x = (e_id x = i)" if "x \<in> set (events d)" for x
    using that same by auto
  then have f1: "filter (\<lambda>x. \<not> ?hit x) (events d) = filter (\<lambda>x. e_id x \<noteq> i) (events d)"
    by (auto intro: filter_cong)
  have nonempty: "filter ?hit (events d) \<noteq> []"
    using e by (auto simp: filter_empty_conv)
  have gone: "e_id ` {x \<in> set (events d). ?hit x} = {i}"
    using e by auto
  show ?thesis
    using f1 nonempty gone by (simp add: delete_event_def Let_def)
qed

lemma delete_event_by_other:
  assumes "schema_ok d" and "get_event d i = Some e" and "u \<noteq> e_user_id e"
  shows "delete_event d i u = (d, False)"
proof -
  from assms(2) have e: "e \<in> set (events d)" "e_id e = i"
    using find_Some_mem [of "\<lambda>x. e_id x = i" "events d" e] by (simp_all add: get_event_def)
  from assms(1) have dist: "distinct (map e_id (events d))"
    by (simp add: schema_ok_def)
  have same: "x = e" if "x \<in> set (events d)" "e_id x = i" for x
    using that e dist by (auto simp: distinct_map inj_on_def)
  let ?hit = "\<lambda>x. e_id x = i \<and> e_user_id x = u"
  have no_hit: "\<not> ?hit x" if "x \<in> set (events d)" for x
    using that same assms(3) by auto
  then have deleted: "filter ?hit (events d) = []"
    and kept: "filter (\<lambda>x. \<not> ?hit x) (events d) = events d"
    by (auto simp: filter_empty_conv filter_id_conv)
  show ?thesis
    unfolding delete_event_def Let_def deleted kept by simp
qed

text \<open>
  Claim C3. In a store that satisfies the constraints of the schema, deleting an event (the
  call by its organizer, the one that deletes) removes exactly the \<^verbatim>\<open>rsvp\<close> rows of
  that event id, \<^verbatim>\<open>get_rsvp\<close> then finds no row of the event for any responder, and
  every remaining row references an existing event. Referential integrity also holds after
  every other delete, after every creation of an event and after every upsert that returns.
\<close>

theorem delete_event_cascade:
  assumes "schema_ok d" and "get_event d event_id = Some e"
  shows "\<exists>d1. delete_event d event_id (e_user_id e) = (d1, True) \<and>
           get_event d1 event_id = None \<and>
           list_event_participants d1 event_id = [] \<and>
           rsvp d1 = filter (\<lambda>r. r_event_id r \<noteq> event_id) (rsvp d) \<and>
           (\<forall>user_id. get_rsvp d1 event_id user_id = None) \<and>
           foreign_key_ok d1 \<and>
           (\<forall>i u. foreign_key_ok (fst (delete_event d i u))) \<and>
           (\<forall>now u t ty tm l. foreign_key_ok (fst (create_event d now u t ty tm l))) \<and>
           (\<forall>now i u s d2. upsert_rsvp d now i u s = Inr d2 \<longrightarrow> foreign_key_ok d2)"
proof -
  let ?d1 = "d\<lparr>events := filter (\<lambda>x. e_id x \<noteq> event_id) (events d),
                rsvp := filter (\<lambda>r. r_event_id r \<noteq> event_id) (rsvp d)\<rparr>"
  have del: "delete_event d event_id (e_user_id e) = (?d1, True)"
    using assms by (rule delete_event_by_organizer)
  have "get_event ?d1 event_id = None"
    by (simp add: get_event_def find_None_iff)
  moreover have "list_event_participants ?d1 event_id = []"
    by (simp add: list_event_participants_def filter_empty_conv)
  moreover have "get_rsvp ?d1 event_id user_id = None" for user_id
    by (simp add: get_rsvp_def find_None_iff)
  moreover have "schema_ok (fst (delete_event d i u))" for i u
    using assms(1) by (rule schema_ok_delete)
  then have fk_del: "foreign_key_ok (fst (delete_event d i u))" for i u
    by (simp add: schema_ok_def)
  moreover have "foreign_key_ok ?d1"
    using fk_del [of event_id "e_user_id e"] del by simp
  moreover have "foreign_key_ok (fst (create_event d now u t ty tm l))" for now u t ty tm l
    using schema_ok_create [OF assms(1)] by (simp add: schema_ok_def)
  moreover have "foreign_key_ok d2" if "upsert_rsvp d now i u s = Inr d2" for now i u s d2
    using schema_ok_upsert [OF assms(1) that] by (simp add: schema_ok_def)
  ultimately show ?thesis
    using del by simp
qed

theorem delete_event_cascade_witness:
  "\<exists>d0 d1. upsert_rsvp one_event ''2026-11-04T10:00:00'' 1 20 ''maybe'' = Inr d0 \<and>
     length (rsvp d0) = 1 \<and>
     delete_event d0 1 10 = (d1, True) \<and>
     get_event d1 1 = None \<and> rsvp d1 = [] \<and> get_rsvp d1 1 20 = None \<and> foreign_key_ok d1"
proof -
  define d0 where "d0 = one_event\<lparr>rsvp := [\<lparr>r_event_id = 1, r_user_id = 20, r_status = ''maybe'',
                                               r_updated_at = ''2026-11-04T10:00:00''\<rparr>]\<rparr>"
  have up: "upsert_rsvp one_event ''2026-11-04T10:00:00'' 1 20 ''maybe'' = Inr d0"
    by (simp add: d0_def one_event_eq upsert_rsvp_def)
  have ok: "schema_ok d0"
    by (simp add: d0_def one_event_eq schema_ok_def foreign_key_ok_def)
  have ev: "get_event d0 1 = Some (hd (events d0))"
    by (simp add: d0_def one_event_eq get_event_def)
  have org: "e_user_id (hd (events d0)) = 10" and len: "length (rsvp d0) = 1"
    and r: "rsvp d0 = [\<lparr>r_event_id = 1, r_user_id = 20, r_status = ''maybe'',
                          r_updated_at = ''2026-11-04T10:00:00''\<rparr>]"
    by (simp_all add: d0_def one_event_eq)
  from delete_event_cascade [OF ok ev] org r up len show ?thesis
    by auto
qed

text \<open>
  Claim C5. For every stored event and every requester other than its organizer,
  \<^verbatim>\<open>delete_event\<close> returns false and leaves the store as it was, so \<^verbatim>\<open>get_event\<close>
  still returns the event with every field unchanged; the delete button of such a requester
  is answered with a refusal and changes nothing either.
\<close>

theorem delete_event_non_organizer:
  assumes "schema_ok (db w)" and "get_event (db w) event_id = Some e"
    and "user_id \<noteq> e_user_id e"
  shows "delete_event (db w) event_id user_id = (db w, False) \<and>
         get_event (fst (delete_event (db w) event_id user_id)) event_id = Some e \<and>
         handle_delete_callback edit_ok w (call\<lparr>cq_from_user_id := user_id\<rparr>) event_id =
           emit [answer_callback_query (cq_id call)
                   (Some ''You can only delete your own events.'') True] w"
  using assms by (simp add: delete_event_by_other handle_delete_callback_def)


theorem delete_event_non_organizer_witness:
  "delete_event one_event 1 20 = (one_event, False) \<and>
   map_option e_title (get_event (fst (delete_event one_event 1 20)) 1) = Some ''Board games'' \<and>
   handle_delete_callback True (idle one_event) (button_press 20 ''delete:1'') 1 =
     \<lparr>db = one_event, user_states = Map.empty,
      outbox = [answer_callback_query ''1'' (Some ''You can only delete your own events.'') True]\<rparr>"
proof -
  have ok: "schema_ok (db (idle one_event))"
    by (simp add: idle_def one_event_eq schema_ok_def foreign_key_ok_def)
  have ev: "get_event (db (idle one_event)) 1 = Some (hd (events one_event))"
    by (simp add: idle_def one_event_eq get_event_def)
  have other: "(20::int) \<noteq> e_user_id (hd (events one_event))"
    by (simp add: one_event_eq)
  have t: "e_title (hd (events one_event)) = ''Board games''"
    by (simp add: one_event_eq)
  show ?thesis
    using delete_event_non_organizer [OF ok ev other, of True "button_press 20 ''delete:1''"] t
    by (auto simp: idle_def emit_def button_press_def)
qed

lemma foldl_counts:
  assumes "distinct (map fst gs)" and "\<forall>g \<in> set gs. lower (fst g) = fst g"
  shows "foldl (\<lambda>counts (status, total). counts(lower status \<mapsto> total)) m gs = m ++ map_of gs"
  using assms
proof (induction gs arbitrary: m)
  case Nil
  then show ?case by simp
next
  case (Cons g gs)
  obtain k v where g: "g = (k, v)" by (cases g)
  from Cons.prems g have k: "lower k = k" and fresh: "k \<notin> dom (map_of gs)"
    and rest: "distinct (map fst gs)" "\<forall>g \<in> set gs. lower (fst g) = fst g"
    by (auto simp: dom_map_of_conv_image_fst)
  have "foldl (\<lambda>counts (status, total). counts(lower status \<mapsto> total)) m (g # gs) =
        foldl (\<lambda>counts (status, total). counts(lower status \<mapsto> total)) (m(k \<mapsto> v)) gs"
    by (simp only: g k foldl.simps prod.case)
  also have "\<dots> = (m(k \<mapsto> v)) ++ map_of gs"
    by (rule Cons.IH [OF rest])
  also have "\<dots> = m ++ map_of (g # gs)"
    using fresh g by (auto simp: fun_eq_iff map_add_def split: option.splits)
  finally show ?case .
qed

lemma map_of_group_by_status:
  "map_of (group_by_status rows) s =
     (if s \<in> set (map r_status rows)
      then Some (length (filter (\<lambda>r. r_status r = s) rows)) else None)"
  by (simp add: group_by_status_def map_of_map_restrict restrict_map_def)

lemma lower_status: "s \<in> set [''yes'', ''no'', ''maybe''] \<Longrightarrow> lower s = s"
  by (auto simp: lower_def lower_char_def is_upper_char_def)

lemma length_by_status:
  assumes "\<forall>r \<in> set rows. r_status r \<in> set [''yes'', ''no'', ''maybe'']"
  shows "length (filter (\<lambda>r. r_status r = ''yes'') rows) +
         length (filter (\<lambda>r. r_status r = ''no'') rows) +
         length (filter (\<lambda>r. r_status r = ''maybe'') rows) = length rows"
  using assms by (induction rows) auto

lemma participants_distinct:
  assumes "distinct (map rsvp_key (rsvp d))"
  shows "distinct (map r_user_id (list_event_participants d i))"
proof -
  have "distinct (map rsvp_key (list_event_participants d i))"
    using assms by (simp add: list_event_participants_def distinct_map_filter)
  moreover have "map rsvp_key (list_event_participants d i) =
                 map (\<lambda>u. (i, u)) (map r_user_id (list_event_participants d i))"
    by (simp add: list_event_participants_def rsvp_key_def)
  ultimately have "distinct (map (\<lambda>u. (i, u)) (map r_user_id (list_event_participants d i)))"
    by (simp del: map_map)
  then show ?thesis
    by (metis distinct_map)
qed

lemma get_rsvp_counts_fold:
  assumes "statuses_ok d"
  shows "get_rsvp_counts d i =
           [''yes'' \<mapsto> 0, ''no'' \<mapsto> 0, ''maybe'' \<mapsto> 0] ++
           map_of (group_by_status (list_event_participants d i))"
proof -
  let ?rows = "list_event_participants d i"
  have canon: "\<forall>r \<in> set ?rows. r_status r \<in> set [''yes'', ''no'', ''maybe'']"
    using assms(1) by (simp add: statuses_ok_def list_event_participants_def)
  have "\<forall>g \<in> set (group_by_status ?rows). lower (fst g) = fst g"
  proof
    fix g assume "g \<in> set (group_by_status ?rows)"
    then have "fst g \<in> r_status ` set ?rows"
      by (auto simp: group_by_status_def)
    with canon have "fst g \<in> set [''yes'', ''no'', ''maybe'']"
      by auto
    then show "lower (fst g) = fst g"
      by (rule lower_status)
  qed
  moreover have "distinct (map fst (group_by_status ?rows))"
    by (simp add: group_by_status_def comp_def)
  ultimately show ?thesis
    unfolding get_rsvp_counts_def list_event_participants_def by (rule foldl_counts [rotated])
qed

lemma get_rsvp_counts_lookup:
  assumes "statuses_ok d" and "s \<in> set [''yes'', ''no'', ''maybe'']"
  shows "get_rsvp_counts d i s =
           Some (length (filter (\<lambda>r. r_status r = s) (list_event_participants d i)))"
proof -
  let ?rows = "list_event_participants d i"
  have fold: "get_rsvp_counts d i =
      [''yes'' \<mapsto> 0, ''no'' \<mapsto> 0, ''maybe'' \<mapsto> 0] ++ map_of (group_by_status ?rows)"
    using assms(1) by (rule get_rsvp_counts_fold)
  show ?thesis
  proof (cases "s \<in> set (map r_status ?rows)")
    case True
    then show ?thesis
      by (simp add: fold map_add_def map_of_group_by_status)
  next
    case False
    then have "filter (\<lambda>r. r_status r = s) ?rows = []"
      by (auto simp: filter_empty_conv)
    with False assms(2) show ?thesis
      by (auto simp: fold map_add_def map_of_group_by_status)
  qed
qed

lemma get_rsvp_counts_dom:
  assumes "statuses_ok d"
  shows "dom (get_rsvp_counts d i) = {''yes'', ''no'', ''maybe''}"
proof -
  let ?rows = "list_event_participants d i"
  have canon: "\<forall>r \<in> set ?rows. r_status r \<in> set [''yes'', ''no'', ''maybe'']"
    using assms(1) by (simp add: statuses_ok_def list_event_participants_def)
  have fold: "get_rsvp_counts d i =
      [''yes'' \<mapsto> 0, ''no'' \<mapsto> 0, ''maybe'' \<mapsto> 0] ++ map_of (group_by_status ?rows)"
    using assms(1) by (rule get_rsvp_counts_fold)
  have "dom (map_of (group_by_status ?rows)) \<subseteq> {''yes'', ''no'', ''maybe''}"
    using canon by (auto simp: map_of_group_by_status dom_def split: if_splits)
  then show ?thesis
    unfolding fold by auto
qed

lemma foldl_counts_untouched:
  assumes "\<forall>g \<in> set gs. lower (fst g) \<noteq> k"
  shows "foldl (\<lambda>counts (status, total). counts(lower status \<mapsto> total)) m gs k = m k"
  using assms by (induction gs arbitrary: m) (auto split: prod.splits)

lemma foldl_counts_keeps_keys:
  assumes "m k \<noteq> None"
  shows "foldl (\<lambda>counts (status, total). counts(lower status \<mapsto> total)) m gs k \<noteq> None"
  using assms by (induction gs arbitrary: m) (auto split: prod.splits)

lemma get_rsvp_counts_keys:
  assumes "s \<in> set [''yes'', ''no'', ''maybe'']"
  shows "get_rsvp_counts d i s \<noteq> None"
  unfolding get_rsvp_counts_def
  by (rule foldl_counts_keeps_keys) (use assms in auto)

lemma get_rsvp_counts_zero:
  assumes "s \<in> set [''yes'', ''no'', ''maybe'']"
    and "\<forall>r \<in> set (list_event_participants d i). lower (r_status r) \<noteq> s"
  shows "get_rsvp_counts d i s = Some 0"
proof -
  have "\<forall>g \<in> set (group_by_status (list_event_participants d i)). lower (fst g) \<noteq> s"
    using assms(2) by (auto simp: group_by_status_def)
  then have "get_rsvp_counts d i s = [''yes'' \<mapsto> 0, ''no'' \<mapsto> 0, ''maybe'' \<mapsto> 0] s"
    unfolding get_rsvp_counts_def list_event_participants_def by (rule foldl_counts_untouched)
  with assms(1) show ?thesis
    by auto
qed

text \<open>
  Claim C7. For every event id, \<^verbatim>\<open>get_rsvp_counts\<close> returns a mapping that contains the
  three keys yes, no and maybe, with 0 for each of them that no row of the event has as its
  (lower-cased) status. In a store that satisfies the constraints of the schema and holds
  only the statuses yes, no and maybe, these are the only keys, each is bound to the number
  of rows of the event with that status, and the three counts add up to the number of
  distinct responders who hold a row for the event.
\<close>

theorem get_rsvp_counts_total:
  "get_rsvp_counts d event_id ''yes'' \<noteq> None \<and>
   get_rsvp_counts d event_id ''no'' \<noteq> None \<and>
   get_rsvp_counts d event_id ''maybe'' \<noteq> None \<and>
   (\<forall>s \<in> set [''yes'', ''no'', ''maybe''].
      (\<forall>r \<in> set (list_event_participants d event_id). lower (r_status r) \<noteq> s) \<longrightarrow>
      get_rsvp_counts d event_id s = Some 0) \<and>
   (schema_ok d \<and> statuses_ok d \<longrightarrow>
      dom (get_rsvp_counts d event_id) = {''yes'', ''no'', ''maybe''} \<and>
      (\<forall>s \<in> set [''yes'', ''no'', ''maybe''].
         get_rsvp_counts d event_id s =
           Some (length (filter (\<lambda>r. r_status r = s) (list_event_participants d event_id)))) \<and>
      the (get_rsvp_counts d event_id ''yes'') + the (get_rsvp_counts d event_id ''no'') +
      the (get_rsvp_counts d event_id ''maybe'') =
        card (r_user_id ` set (list_event_participants d event_id)))"
proof -
  let ?rows = "list_event_participants d event_id"
  let ?c = "get_rsvp_counts d event_id"
  have keys: "?c ''yes'' \<noteq> None" "?c ''no'' \<noteq> None" "?c ''maybe'' \<noteq> None"
    by (rule get_rsvp_counts_keys, simp)+
  have zero: "\<forall>s \<in> set [''yes'', ''no'', ''maybe''].
        (\<forall>r \<in> set ?rows. lower (r_status r) \<noteq> s) \<longrightarrow> ?c s = Some 0"
    using get_rsvp_counts_zero by blast
  have exact: "dom ?c = {''yes'', ''no'', ''maybe''} \<and>
      (\<forall>s \<in> set [''yes'', ''no'', ''maybe''].
         ?c s = Some (length (filter (\<lambda>r. r_status r = s) ?rows))) \<and>
      the (?c ''yes'') + the (?c ''no'') + the (?c ''maybe'') = card (r_user_id ` set ?rows)"
    if ok: "schema_ok d" and st: "statuses_ok d"
  proof -
    have canon: "\<forall>r \<in> set ?rows. r_status r \<in> set [''yes'', ''no'', ''maybe'']"
      using st by (simp add: statuses_ok_def list_event_participants_def)
    have "distinct (map r_user_id ?rows)"
      using ok by (simp add: schema_ok_def participants_distinct)
    then have "card (set (map r_user_id ?rows)) = length (map r_user_id ?rows)"
      by (rule distinct_card)
    then have card: "card (r_user_id ` set ?rows) = length ?rows"
      by simp
    have each: "?c s = Some (length (filter (\<lambda>r. r_status r = s) ?rows))"
      if "s \<in> set [''yes'', ''no'', ''maybe'']" for s
      using st that by (rule get_rsvp_counts_lookup)
    have "the (?c ''yes'') + the (?c ''no'') + the (?c ''maybe'') = length ?rows"
      using length_by_status [OF canon] by (simp add: each)
    with card each get_rsvp_counts_dom [OF st] show ?thesis
      by simp
  qed
  have cond: "schema_ok d \<and> statuses_ok d \<longrightarrow>
      dom ?c = {''yes'', ''no'', ''maybe''} \<and>
      (\<forall>s \<in> set [''yes'', ''no'', ''maybe''].
         ?c s = Some (length (filter (\<lambda>r. r_status r = s) ?rows))) \<and>
      the (?c ''yes'') + the (?c ''no'') + the (?c ''maybe'') = card (r_user_id ` set ?rows)"
    using exact by (intro impI) (elim conjE)
  show ?thesis
    by (intro conjI) (rule keys zero cond)+
qed

theorem get_rsvp_counts_total_witness:
  "get_rsvp_counts two_rsvps 1 ''yes'' = Some 1 \<and>
   get_rsvp_counts two_rsvps 1 ''no'' = Some 0 \<and>
   get_rsvp_counts two_rsvps 1 ''maybe'' = Some 1 \<and>
   dom (get_rsvp_counts two_rsvps 1) = {''yes'', ''no'', ''maybe''} \<and>
   card (r_user_id ` set (list_event_participants two_rsvps 1)) = 2"
proof -
  have ok: "schema_ok two_rsvps \<and> statuses_ok two_rsvps"
    by (simp add: two_rsvps_def one_event_eq schema_ok_def foreign_key_ok_def rsvp_key_def
        statuses_ok_def)
  have rows: "list_event_participants two_rsvps 1 =
     [\<lparr>r_event_id = 1, r_user_id = 20, r_status = ''maybe'', r_updated_at = ''2026-11-04T10:00:00''\<rparr>,
      \<lparr>r_event_id = 1, r_user_id = 30, r_status = ''yes'', r_updated_at = ''2026-11-04T10:05:00''\<rparr>]"
    by (simp add: two_rsvps_def one_event_eq list_event_participants_def)
  from get_rsvp_counts_total [of two_rsvps 1] ok
  have "dom (get_rsvp_counts two_rsvps 1) = {''yes'', ''no'', ''maybe''}"
    and "\<forall>s \<in> set [''yes'', ''no'', ''maybe''].
         get_rsvp_counts two_rsvps 1 s =
           Some (length (filter (\<lambda>r. r_status r = s) (list_event_participants two_rsvps 1)))"
    and "the (get_rsvp_counts two_rsvps 1 ''yes'') + the (get_rsvp_counts two_rsvps 1 ''no'') +
      the (get_rsvp_counts two_rsvps 1 ''maybe'') =
        card (r_user_id ` set (list_event_participants two_rsvps 1))"
    by blast+
  then show ?thesis
    by (simp add: rows)
qed

section \<open>Integers and their text\<close>

lemma digit_char_decimal: "d < 10 \<Longrightarrow> is_decimal (digit_char d)"
proof -
  assume "d < 10"
  then have "d \<in> {0, 1, 2, 3, 4, 5, 6, 7, 8, 9}" by auto
  then show ?thesis
    by (auto simp: is_decimal_def digit_char_def)
qed

lemma digit_val_digit_char: "d < 10 \<Longrightarrow> digit_val (digit_char d) = d"
proof -
  assume "d < 10"
  then have "d \<in> {0, 1, 2, 3, 4, 5, 6, 7, 8, 9}" by auto
  then show ?thesis
    by (auto simp: digit_val_def digit_char_def)
qed

lemma str_nat_decimal: "list_all is_decimal (str_nat n)"
proof (induction n rule: str_nat.induct)
  case (1 n)
  show ?case
  proof (cases "n < 10")
    case True
    then show ?thesis
      by (subst str_nat.simps) (simp add: digit_char_decimal)
  next
    case False
    with 1 show ?thesis
      by (subst str_nat.simps) (simp add: digit_char_decimal)
  qed
qed

lemma str_nat_nonempty: "str_nat n \<noteq> []"
  by (subst str_nat.simps) simp

lemma parse_digits_decimal:
  "list_all is_decimal ds \<Longrightarrow>
   parse_digits acc ds = Some (foldl (\<lambda>a c. 10 * a + digit_val c) acc ds)"
proof (induction ds arbitrary: acc)
  case Nil
  then show ?case by simp
next
  case (Cons c ds)
  then have "is_decimal c" and "c \<noteq> CHR ''_''"
    by (auto simp: is_decimal_def)
  with Cons show ?case by simp
qed

lemma parse_unsigned_decimal:
  assumes "list_all is_decimal ds" and "ds \<noteq> []"
  shows "parse_unsigned ds = Some (foldl (\<lambda>a c. 10 * a + digit_val c) 0 ds)"
proof (cases ds)
  case Nil
  with assms(2) show ?thesis by simp
next
  case (Cons c cs)
  with assms(1) show ?thesis
    by (simp add: parse_unsigned_def parse_digits_decimal)
qed

lemma value_str_nat: "foldl (\<lambda>a c. 10 * a + digit_val c) 0 (str_nat n) = n"
proof (induction n rule: str_nat.induct)
  case (1 n)
  show ?case
  proof (cases "n < 10")
    case True
    then show ?thesis
      by (subst str_nat.simps) (simp add: digit_val_digit_char)
  next
    case False
    with 1 show ?thesis
      by (subst str_nat.simps) (simp add: digit_val_digit_char)
  qed
qed

lemma parse_unsigned_str_nat: "parse_unsigned (str_nat n) = Some n"
  by (simp add: parse_unsigned_decimal str_nat_decimal str_nat_nonempty value_str_nat)

lemma decimal_not_space: "is_decimal c \<Longrightarrow> \<not> isspace c"
  by (auto simp: is_decimal_def isspace_def)

lemma strip_no_space:
  assumes "\<forall>c \<in> set s. \<not> isspace c"
  shows "strip s = s"
proof -
  have "dropWhile isspace t = t" if "\<forall>c \<in> set t. \<not> isspace c" for t
    using that by (cases t) auto
  from this [of s] this [of "rev s"] assms show ?thesis
    by (simp add: strip_def)
qed

lemma int_strip_no_space:
  assumes "\<forall>c \<in> set s. \<not> isspace c"
  shows "int_strip s = s"
proof -
  have none: "\<not> is_int_space c" if "\<not> isspace c" for c
    using that by (auto simp: is_int_space_def isspace_def)
  have "dropWhile is_int_space t = t" if "\<forall>c \<in> set t. \<not> isspace c" for t
    using that none by (cases t) auto
  from this [of s] this [of "rev s"] assms show ?thesis
    by (simp add: int_strip_def)
qed

lemma str_int_no_space: "\<forall>c \<in> set (str_int n). \<not> isspace c"
proof -
  have "\<forall>c \<in> set (str_nat k). \<not> isspace c" for k
    using str_nat_decimal [of k] by (simp add: list_all_iff decimal_not_space)
  moreover have "\<not> isspace (CHR ''-'')"
    by (simp add: isspace_def)
  ultimately show ?thesis
    by (simp add: str_int_def)
qed

lemma int_of_str_str_int: "int_of_str (str_int n) = Inr n"
proof (cases "n < 0")
  case True
  then have "str_int n = CHR ''-'' # str_nat (nat (- n))"
    by (simp add: str_int_def)
  moreover have "int_strip (str_int n) = str_int n"
    by (simp add: int_strip_no_space str_int_no_space)
  ultimately show ?thesis
    using True by (simp add: int_of_str_def parse_unsigned_str_nat)
next
  case False
  obtain c cs where s: "str_nat (nat n) = c # cs"
    using str_nat_nonempty [of "nat n"] by (cases "str_nat (nat n)") auto
  with str_nat_decimal [of "nat n"] have "is_decimal c" by simp
  then have c: "c \<noteq> CHR ''-''" "c \<noteq> CHR ''+''"
    by (auto simp: is_decimal_def)
  have "int_strip (str_int n) = str_int n"
    by (simp add: int_strip_no_space str_int_no_space)
  moreover from False s have "str_int n = c # cs"
    by (simp add: str_int_def)
  ultimately show ?thesis
    using c False parse_unsigned_str_nat [of "nat n"] by (simp add: int_of_str_def s)
qed

lemma split_from_no_space:
  assumes "\<forall>c \<in> set s. \<not> isspace c" and "cur @ s \<noteq> []"
  shows "split_from cur s = [cur @ s]"
  using assms by (induction s arbitrary: cur) auto

lemma split_ws_start:
  "split_ws (''/start join_'' @ str_int n) = [''/start'', ''join_'' @ str_int n]"
proof -
  have "split_from ''join_'' (str_int n) = [''join_'' @ str_int n]"
    by (rule split_from_no_space) (simp_all add: str_int_no_space)
  then show ?thesis
    by (simp add: split_ws_def isspace_def)
qed

lemma start_event_id_join: "start_event_id (''join_'' @ str_int n) = Inr n"
  by (simp add: start_event_id_def split_once_def item_def and_then_def int_of_str_str_int)

text \<open>
  Claim C6. For every integer \<open>n\<close>, the invite link built for \<open>n\<close> carries the start
  argument \<^verbatim>\<open>join_<n>\<close>, and \<^verbatim>\<open>handle_start\<close>, given the command text that
  carries this argument, extracts exactly \<open>n\<close> and joins event \<open>n\<close>.
\<close>

theorem invite_link_round_trip:
  "get_invite_link username n = ''https://t.me/'' @ username @ ''?start='' @ ''join_'' @ str_int n \<and>
   start_event_id (''join_'' @ str_int n) = Inr n \<and>
   handle_start username now w (m\<lparr>msg_text := Some (''/start '' @ ''join_'' @ str_int n)\<rparr>) =
     handle_join_event username now w (m\<lparr>msg_text := Some (''/start '' @ ''join_'' @ str_int n)\<rparr>) n"
proof -
  have "get_invite_link username n = ''https://t.me/'' @ username @ ''?start='' @ ''join_'' @ str_int n"
    by (simp add: get_invite_link_def)
  moreover have "start_event_id (''join_'' @ str_int n) = Inr n"
    by (rule start_event_id_join)
  moreover have "startswith (''join_'' @ str_int n) ''join_''"
    by (simp add: startswith_def)
  ultimately show ?thesis
    using split_ws_start [of n] by (simp add: handle_start_def)
qed

lemma int_text_examples:
  "str_int 42 = ''42''"
  "str_int (- 7) = ''-7''"
  "int_of_str '' +1_0 '' = Inr 10"
  "int_of_str ''1__0'' = Inl ValueError"
  "get_invite_link ''planner_bot'' 42 = ''https://t.me/planner_bot?start=join_42''"
  by code_simp+

section \<open>Properties of the bot\<close>

text \<open>
  Claim C4. The time step on the three inputs the specification names, on a blank input,
  and on \<^verbatim>\<open>1::23\<close>: this text is not of the form HH:MM, yet the test of the source
  (five characters, a colon at index 2, only digits once every colon is removed) accepts
  it, and the stored time is the text with \<^verbatim>\<open>Tomorrow\<close> in front instead of the text
  itself.
\<close>

theorem time_value_stray_colons:
  "time_value (Some []) = ''Tomorrow 19:00'' \<and>
   time_value (Some ''   '') = ''Tomorrow 19:00'' \<and>
   time_value (Some ''20:15'') = ''Tomorrow 20:15'' \<and>
   time_value (Some ''whenever'') = ''whenever'' \<and>
   time_value (Some ''1::23'') = ''Tomorrow 1::23''"
  by (simp add: time_value_def DEFAULT_TIME_TEXT_def strip_def isspace_def replace_def
      isdigit_def isdigit_char_def is_decimal_def)

lemma int_of_str_cases: "int_of_str s = Inl ValueError \<or> (\<exists>n. int_of_str s = Inr n)"
  by (auto simp: int_of_str_def split: list.splits option.splits)

lemma not_integer: "(\<forall>n. int_of_str s \<noteq> Inr n) = (int_of_str s = Inl ValueError)"
  using int_of_str_cases [of s] by auto

lemma split_sep_from_length:
  "length (split_sep_from sep cur s) = Suc (count_list s sep)"
  by (induction s arbitrary: cur) auto

lemma split_sep_from_plain:
  "sep \<notin> set s \<Longrightarrow> split_sep_from sep cur s = [cur @ s]"
  by (induction s arbitrary: cur) auto

lemma split_sep_from_first:
  "sep \<notin> set a \<Longrightarrow> split_sep_from sep cur (a @ sep # b) = (cur @ a) # split_sep_from sep [] b"
  by (induction a arbitrary: cur) auto

lemma callback_event_id_view: "callback_event_id (''view:'' @ rest) = int_of_str rest"
  by (simp add: callback_event_id_def split_once_def item_def and_then_def)

lemma callback_event_id_delete: "callback_event_id (''delete:'' @ rest) = int_of_str rest"
  by (simp add: callback_event_id_def split_once_def item_def and_then_def)

lemma handle_callbacks_view_invalid:
  assumes "cq_data call = ''view:'' @ rest" and "int_of_str rest = Inl ValueError"
  shows "handle_callbacks username edit_ok now w call =
           Inr (emit [answer_callback_query (cq_id call) (Some ''Invalid event id.'') True] w)"
  using assms callback_event_id_view [of rest] by (simp add: handle_callbacks_def startswith_def)

lemma handle_callbacks_delete_invalid:
  assumes "cq_data call = ''delete:'' @ rest" and "int_of_str rest = Inl ValueError"
  shows "handle_callbacks username edit_ok now w call =
           Inr (emit [answer_callback_query (cq_id call) (Some ''Invalid event id.'') True] w)"
  using assms callback_event_id_delete [of rest] by (simp add: handle_callbacks_def startswith_def)

lemma handle_callbacks_rsvp_arity:
  assumes "cq_data call = ''rsvp:'' @ rest" and "count_list rest (CHR '':'') \<noteq> 1"
  shows "handle_callbacks username edit_ok now w call =
           Inr (emit [answer_callback_query (cq_id call) (Some ''Invalid RSVP data.'') True] w)"
proof -
  have "length (split_sep (CHR '':'') (cq_data call)) = Suc (Suc (count_list rest (CHR '':'')))"
    by (simp add: assms(1) split_sep_def split_sep_from_length)
  with assms(2) have "length (split_sep (CHR '':'') (cq_data call)) \<noteq> 3"
    by simp
  then show ?thesis
    by (simp add: handle_callbacks_def startswith_def assms(1) Let_def)
qed

lemma handle_callbacks_rsvp_invalid:
  assumes "cq_data call = ''rsvp:'' @ idpart @ '':'' @ status"
    and "CHR '':'' \<notin> set idpart" and "CHR '':'' \<notin> set status"
    and "int_of_str idpart = Inl ValueError"
  shows "handle_callbacks username edit_ok now w call =
           Inr (emit [answer_callback_query (cq_id call) (Some ''Invalid RSVP data.'') True] w)"
proof -
  have "split_sep (CHR '':'') (cq_data call) = [''rsvp'', idpart, status]"
    using assms(2,3)
    by (simp add: assms(1) split_sep_def split_sep_from_first split_sep_from_plain)
  then show ?thesis
    using assms(4) by (simp add: handle_callbacks_def startswith_def assms(1) Let_def)
qed

text \<open>
  Claim C9, as amended. For every button payload that starts with \<^verbatim>\<open>view:\<close>,
  \<^verbatim>\<open>delete:\<close> or \<^verbatim>\<open>rsvp:\<close> and is malformed (a view or delete payload whose
  text after the first colon \<^verbatim>\<open>int\<close> rejects, an rsvp payload that does not have
  three colon-delimited parts, or one with three parts whose second part \<^verbatim>\<open>int\<close>
  rejects), \<^verbatim>\<open>handle_callbacks\<close> returns, answers the button with an alert that
  says the data is invalid, and leaves the store and the conversations as they were. A
  payload that starts with none of the three prefixes, the bare words \<^verbatim>\<open>view\<close>,
  \<^verbatim>\<open>delete\<close> and \<^verbatim>\<open>rsvp\<close> among them, is acknowledged without a message:
  the claim as written promises an invalid-data message for these too (the
  counterexample below).
\<close>

theorem handle_callbacks_malformed:
  "((\<exists>rest. (cq_data call = ''view:'' @ rest \<or> cq_data call = ''delete:'' @ rest) \<and>
            (\<forall>n. int_of_str rest \<noteq> Inr n)) \<or>
    (\<exists>rest. cq_data call = ''rsvp:'' @ rest \<and> count_list rest (CHR '':'') \<noteq> 1) \<or>
    (\<exists>idpart status. cq_data call = ''rsvp:'' @ idpart @ '':'' @ status \<and>
            CHR '':'' \<notin> set idpart \<and> CHR '':'' \<notin> set status \<and>
            (\<forall>n. int_of_str idpart \<noteq> Inr n)) \<longrightarrow>
    (\<exists>w1 reply. handle_callbacks username edit_ok now w call = Inr w1 \<and>
       db w1 = db w \<and> user_states w1 = user_states w \<and>
       outbox w1 = outbox w @ [answer_callback_query (cq_id call) (Some reply) True] \<and>
       (reply = ''Invalid event id.'' \<or> reply = ''Invalid RSVP data.''))) \<and>
   (\<not> startswith (cq_data call) ''view:'' \<and> \<not> startswith (cq_data call) ''delete:'' \<and>
    \<not> startswith (cq_data call) ''rsvp:'' \<longrightarrow>
    handle_callbacks username edit_ok now w call =
      Inr (emit [answer_callback_query (cq_id call) None False] w))"
proof (intro conjI impI)
  assume "(\<exists>rest. (cq_data call = ''view:'' @ rest \<or> cq_data call = ''delete:'' @ rest) \<and>
                  (\<forall>n. int_of_str rest \<noteq> Inr n)) \<or>
           (\<exists>rest. cq_data call = ''rsvp:'' @ rest \<and> count_list rest (CHR '':'') \<noteq> 1) \<or>
           (\<exists>idpart status. cq_data call = ''rsvp:'' @ idpart @ '':'' @ status \<and>
                  CHR '':'' \<notin> set idpart \<and> CHR '':'' \<notin> set status \<and>
                  (\<forall>n. int_of_str idpart \<noteq> Inr n))"
  then have
    "handle_callbacks username edit_ok now w call =
       Inr (emit [answer_callback_query (cq_id call) (Some ''Invalid event id.'') True] w) \<or>
     handle_callbacks username edit_ok now w call =
       Inr (emit [answer_callback_query (cq_id call) (Some ''Invalid RSVP data.'') True] w)"
    unfolding not_integer
    using handle_callbacks_view_invalid handle_callbacks_delete_invalid
      handle_callbacks_rsvp_arity handle_callbacks_rsvp_invalid
    by metis
  then show "\<exists>w1 reply. handle_callbacks username edit_ok now w call = Inr w1 \<and>
       db w1 = db w \<and> user_states w1 = user_states w \<and>
       outbox w1 = outbox w @ [answer_callback_query (cq_id call) (Some reply) True] \<and>
       (reply = ''Invalid event id.'' \<or> reply = ''Invalid RSVP data.'')"
    by (auto simp: emit_def)
next
  assume "\<not> startswith (cq_data call) ''view:'' \<and> \<not> startswith (cq_data call) ''delete:'' \<and>
          \<not> startswith (cq_data call) ''rsvp:''"
  then show "handle_callbacks username edit_ok now w call =
      Inr (emit [answer_callback_query (cq_id call) None False] w)"
    by (simp add: handle_callbacks_def)
qed

lemma int_of_str_abc: "int_of_str ''abc'' = Inl ValueError"
  by code_simp

lemma int_of_str_x: "int_of_str ''x'' = Inl ValueError"
  by code_simp

lemma int_of_str_separator: "int_of_str [CHR 0x1C, CHR ''1''] = Inl ValueError"
  by code_simp

theorem handle_callbacks_malformed_witness:
  "(\<exists>w1 reply.
      handle_callbacks ''planner_bot'' True ''2026-11-04T12:00:00'' (idle one_event)
        (button_press 20 ''view:abc'') = Inr w1 \<and>
      db w1 = db (idle one_event) \<and> user_states w1 = user_states (idle one_event) \<and>
      outbox w1 = outbox (idle one_event) @
        [answer_callback_query (cq_id (button_press 20 ''view:abc'')) (Some reply) True] \<and>
      (reply = ''Invalid event id.'' \<or> reply = ''Invalid RSVP data.'')) \<and>
   (\<exists>w1 reply.
      handle_callbacks ''planner_bot'' True ''2026-11-04T12:00:00'' (idle one_event)
        (button_press 20 ''rsvp:1'') = Inr w1 \<and>
      db w1 = db (idle one_event) \<and> user_states w1 = user_states (idle one_event) \<and>
      outbox w1 = outbox (idle one_event) @
        [answer_callback_query (cq_id (button_press 20 ''rsvp:1'')) (Some reply) True] \<and>
      (reply = ''Invalid event id.'' \<or> reply = ''Invalid RSVP data.'')) \<and>
   (\<exists>w1 reply.
      handle_callbacks ''planner_bot'' True ''2026-11-04T12:00:00'' (idle one_event)
        (button_press 20 ''rsvp:x:yes'') = Inr w1 \<and>
      db w1 = db (idle one_event) \<and> user_states w1 = user_states (idle one_event) \<and>
      outbox w1 = outbox (idle one_event) @
        [answer_callback_query (cq_id (button_press 20 ''rsvp:x:yes'')) (Some reply) True] \<and>
      (reply = ''Invalid event id.'' \<or> reply = ''Invalid RSVP data.'')) \<and>
   (\<exists>w1 reply.
      handle_callbacks ''planner_bot'' True ''2026-11-04T12:00:00'' (idle one_event)
        (button_press 20 (''delete:'' @ [CHR 0x1C, CHR ''1''])) = Inr w1 \<and>
      db w1 = db (idle one_event) \<and> user_states w1 = user_states (idle one_event) \<and>
      outbox w1 = outbox (idle one_event) @
        [answer_callback_query (cq_id (button_press 20 (''delete:'' @ [CHR 0x1C, CHR ''1''])))
           (Some reply) True] \<and>
      (reply = ''Invalid event id.'' \<or> reply = ''Invalid RSVP data.'')) \<and>
   handle_callbacks ''planner_bot'' True ''2026-11-04T12:00:00'' (idle one_event)
     (button_press 20 ''hello'') =
     Inr (emit [answer_callback_query (cq_id (button_press 20 ''hello'')) None False]
            (idle one_event))"
proof -
  have a: "\<exists>rest. (cq_data (button_press 20 ''view:abc'') = ''view:'' @ rest \<or>
                    cq_data (button_press 20 ''view:abc'') = ''delete:'' @ rest) \<and>
                   (\<forall>n. int_of_str rest \<noteq> Inr n)"
    by (rule exI [of _ "''abc''"]) (simp add: button_press_def int_of_str_abc)
  have b: "\<exists>rest. cq_data (button_press 20 ''rsvp:1'') = ''rsvp:'' @ rest \<and>
                   count_list rest (CHR '':'') \<noteq> 1"
    by (rule exI [of _ "''1''"]) (simp add: button_press_def)
  have c: "\<exists>idpart status.
             cq_data (button_press 20 ''rsvp:x:yes'') = ''rsvp:'' @ idpart @ '':'' @ status \<and>
             CHR '':'' \<notin> set idpart \<and> CHR '':'' \<notin> set status \<and>
             (\<forall>n. int_of_str idpart \<noteq> Inr n)"
    by (rule exI [of _ "''x''"], rule exI [of _ "''yes''"])
       (simp add: button_press_def int_of_str_x)
  have d: "\<exists>rest. (cq_data (button_press 20 (''delete:'' @ [CHR 0x1C, CHR ''1''])) = ''view:'' @ rest \<or>
                    cq_data (button_press 20 (''delete:'' @ [CHR 0x1C, CHR ''1''])) = ''delete:'' @ rest) \<and>
                   (\<forall>n. int_of_str rest \<noteq> Inr n)"
    by (rule exI [of _ "[CHR 0x1C, CHR ''1'']"]) (simp add: button_press_def int_of_str_separator)
  have e: "\<not> startswith (cq_data (button_press 20 ''hello'')) ''view:'' \<and>
           \<not> startswith (cq_data (button_press 20 ''hello'')) ''delete:'' \<and>
           \<not> startswith (cq_data (button_press 20 ''hello'')) ''rsvp:''"
    by (simp add: button_press_def startswith_def)
  note malformed = handle_callbacks_malformed [THEN conjunct1, THEN mp]
  show ?thesis
    by (intro conjI)
       (rule malformed [OF disjI1 [OF a]],
        rule malformed [OF disjI2 [OF disjI1 [OF b]]],
        rule malformed [OF disjI2 [OF disjI2 [OF c]]],
        rule malformed [OF disjI1 [OF d]],
        rule handle_callbacks_malformed [THEN conjunct2, THEN mp, OF e])
qed

theorem handle_callbacks_bare_word_counterexample:
  "length (split_sep (CHR '':'') ''rsvp'') = 1 \<and>
   handle_callbacks ''planner_bot'' True ''2026-11-04T12:00:00'' (idle one_event)
     (button_press 20 ''rsvp'') =
     Inr \<lparr>db = one_event, user_states = Map.empty,
          outbox = [answer_callback_query ''1'' None False]\<rparr>"
  by (simp add: split_sep_def handle_callbacks_def startswith_def button_press_def idle_def
      emit_def)

lemma join_snoc: "xs \<noteq> [] \<Longrightarrow> join sep (xs @ [y]) = join sep xs @ sep @ y"
  by (cases xs) (simp_all add: join_def)

lemma build_event_text_status_line:
  "\<exists>pre. build_event_text username e (Some s) (Some c) False True =
     pre @ ''\<newline>Your RSVP: '' @ (if s = [] then ''Not set'' else title s)"
proof -
  let ?get = "\<lambda>c k. case c k of None \<Rightarrow> 0::nat | Some n \<Rightarrow> n"
  let ?l1 = "[sym_pushpin @ '' <b>'' @ escape_html (Some (e_title e)) @ ''</b>'',
              ''Type: '' @ escape_html (Some (e_type e)),
              ''Time: '' @ escape_html (Some (e_time e)),
              ''Location: '' @ escape_html (Some (e_location e)),
              ''RSVPs '' @ sym_dash @ '' Yes: '' @ str_nat (?get c ''yes'') @
                '' | No: '' @ str_nat (?get c ''no'') @
                '' | Maybe: '' @ str_nat (?get c ''maybe'')]"
  have "build_event_text username e (Some s) (Some c) False True =
        join ''\<newline>'' (?l1 @ [''Your RSVP: '' @ (if s = [] then ''Not set'' else title s)])"
    by (simp add: build_event_text_def)
  also have "\<dots> = join ''\<newline>'' ?l1 @ ''\<newline>'' @
                    (''Your RSVP: '' @ (if s = [] then ''Not set'' else title s))"
    by (rule join_snoc) simp
  finally show ?thesis
    by (intro exI [of _ "join ''\<newline>'' ?l1"]) simp
qed

text \<open>
  Claim C10. When the user who opens an invite link in a private chat already holds an RSVP
  row for the event, \<^verbatim>\<open>handle_join_event\<close> writes nothing: the store is returned as it
  was (so the row keeps its status and its time stamp), and the text sent ends with the
  line of the stored status, not with maybe.
\<close>

theorem handle_join_event_existing_rsvp:
  assumes "msg_chat_type m = ''private''"
    and "get_event (db w) event_id = Some e"
    and "get_rsvp (db w) event_id (msg_from_user_id m) = Some r"
  shows "\<exists>w1 body pre.
           handle_join_event username now w m event_id = Inr w1 \<and>
           db w1 = db w \<and> user_states w1 = user_states w \<and>
           get_rsvp (db w1) event_id (msg_from_user_id m) = Some r \<and>
           outbox w1 = outbox w @
             [send_message (msg_chat_id m) body (Some (build_rsvp_markup event_id))] \<and>
           body = ''You're invited to an event for tomorrow!\<newline>\<newline>'' @
                  build_event_text username e (Some (r_status r))
                    (Some (get_rsvp_counts (db w) event_id)) False True \<and>
           body = pre @ ''\<newline>Your RSVP: '' @
                  (if r_status r = [] then ''Not set'' else title (r_status r))"
proof -
  let ?text = "build_event_text username e (Some (r_status r))
                 (Some (get_rsvp_counts (db w) event_id)) False True"
  obtain pre where pre: "?text = pre @ ''\<newline>Your RSVP: '' @
      (if r_status r = [] then ''Not set'' else title (r_status r))"
    using build_event_text_status_line by blast
  have "handle_join_event username now w m event_id =
        Inr (emit [send_message (msg_chat_id m)
                     (''You're invited to an event for tomorrow!\<newline>\<newline>'' @ ?text)
                     (Some (build_rsvp_markup event_id))] w)"
    using assms by (simp add: handle_join_event_def and_then_def Let_def)
  then show ?thesis
    using assms(3) pre
    by (intro exI [of _ "emit [send_message (msg_chat_id m)
                     (''You're invited to an event for tomorrow!\<newline>\<newline>'' @ ?text)
                     (Some (build_rsvp_markup event_id))] w"]
          exI [of _ "''You're invited to an event for tomorrow!\<newline>\<newline>'' @ ?text"]
          exI [of _ "''You're invited to an event for tomorrow!\<newline>\<newline>'' @ pre"])
       (simp add: emit_def)
qed

lemma title_no: "title ''no'' = ''No''"
  by (simp add: title_def is_lower_char_def is_upper_char_def upper_char_def lower_char_def)

lemma title_statuses: "title ''yes'' = ''Yes''" "title ''maybe'' = ''Maybe''"
  by (simp_all add: title_def is_lower_char_def is_upper_char_def upper_char_def lower_char_def)

theorem handle_join_event_existing_rsvp_witness:
  "\<exists>w1 body pre.
     handle_join_event ''planner_bot'' ''2026-11-04T12:00:00'' (idle two_rsvps)
       (private_text 30 ''/start join_1'') 1 = Inr w1 \<and>
     db w1 = two_rsvps \<and>
     map_option r_status (get_rsvp (db w1) 1 30) = Some ''yes'' \<and>
     map_option r_updated_at (get_rsvp (db w1) 1 30) = Some ''2026-11-04T10:05:00'' \<and>
     outbox w1 = [send_message 30 body (Some (build_rsvp_markup 1))] \<and>
     body = pre @ ''\<newline>Your RSVP: Yes''"
proof -
  let ?r = "\<lparr>r_event_id = 1, r_user_id = 30, r_status = ''yes'',
             r_updated_at = ''2026-11-04T10:05:00''\<rparr>"
  have p: "msg_chat_type (private_text 30 ''/start join_1'') = ''private''"
    by (simp add: private_text_def)
  have ev: "get_event (db (idle two_rsvps)) 1 = Some (hd (events one_event))"
    by (simp add: idle_def two_rsvps_def one_event_eq get_event_def)
  have r: "get_rsvp (db (idle two_rsvps)) 1 (msg_from_user_id (private_text 30 ''/start join_1'')) =
           Some ?r"
    by (simp add: idle_def two_rsvps_def one_event_eq get_rsvp_def private_text_def)
  show ?thesis
    using handle_join_event_existing_rsvp [OF p ev r, of "''planner_bot''" "''2026-11-04T12:00:00''"]
    by (simp add: title_statuses) (auto simp: idle_def private_text_def)
qed

lemma statuses_ok_insert:
  assumes "statuses_ok d" and "s \<in> set [''yes'', ''no'', ''maybe'']"
  shows "statuses_ok (d\<lparr>rsvp := rsvp d @ [\<lparr>r_event_id = i, r_user_id = u, r_status = s,
                                             r_updated_at = now\<rparr>]\<rparr>)"
  using assms by (auto simp: statuses_ok_def)

text \<open>
  Claim C8. When a user opens an invite link for an existing event in a private chat and
  holds no RSVP row for it, \<^verbatim>\<open>handle_join_event\<close> appends one row for the (event, user)
  pair with status maybe: \<^verbatim>\<open>get_rsvp\<close> then returns maybe for the pair, and the maybe
  count of the event is present; in a store that holds only the statuses yes, no and maybe
  it is one more than the number of maybe rows the event had before.
\<close>

theorem handle_join_event_first_time:
  assumes "msg_chat_type m = ''private''"
    and "get_event (db w) event_id = Some e"
    and "get_rsvp (db w) event_id (msg_from_user_id m) = None"
  shows "\<exists>w1. handle_join_event username now w m event_id = Inr w1 \<and>
           rsvp (db w1) = rsvp (db w) @
             [\<lparr>r_event_id = event_id, r_user_id = msg_from_user_id m, r_status = ''maybe'',
               r_updated_at = now\<rparr>] \<and>
           events (db w1) = events (db w) \<and>
           map_option r_status (get_rsvp (db w1) event_id (msg_from_user_id m)) = Some ''maybe'' \<and>
           get_rsvp_counts (db w1) event_id ''maybe'' \<noteq> None \<and>
           (statuses_ok (db w) \<longrightarrow>
              get_rsvp_counts (db w1) event_id ''maybe'' =
                Some (Suc (length (filter (\<lambda>r. r_status r = ''maybe'')
                                     (list_event_participants (db w) event_id))))) \<and>
           outbox w1 = outbox w @
             [send_message (msg_chat_id m)
                (''You're invited to an event for tomorrow!\<newline>\<newline>'' @
                 build_event_text username e (Some ''maybe'')
                   (Some (get_rsvp_counts (db w1) event_id)) False True)
                (Some (build_rsvp_markup event_id))]"
proof -
  let ?row = "\<lparr>r_event_id = event_id, r_user_id = msg_from_user_id m, r_status = ''maybe'',
               r_updated_at = now\<rparr>"
  let ?d = "(db w)\<lparr>rsvp := rsvp (db w) @ [?row]\<rparr>"
  let ?w1 = "emit [send_message (msg_chat_id m)
                (''You're invited to an event for tomorrow!\<newline>\<newline>'' @
                 build_event_text username e (Some ''maybe'')
                   (Some (get_rsvp_counts ?d event_id)) False True)
                (Some (build_rsvp_markup event_id))] (w\<lparr>db := ?d\<rparr>)"
  have up: "upsert_rsvp (db w) now event_id (msg_from_user_id m) ''maybe'' = Inr ?d"
    using assms(2,3) by (simp add: upsert_rsvp_insert)
  have run: "handle_join_event username now w m event_id = Inr ?w1"
    using assms(1-3) up by (simp add: handle_join_event_def and_then_def Let_def)
  have "find (\<lambda>r. r_event_id r = event_id \<and> r_user_id r = msg_from_user_id m) (rsvp (db w)) = None"
    using assms(3) by (simp add: get_rsvp_def)
  then have stored: "get_rsvp ?d event_id (msg_from_user_id m) = Some ?row"
    by (simp add: get_rsvp_def find_append_cases)
  have counts: "get_rsvp_counts ?d event_id ''maybe'' =
      Some (Suc (length (filter (\<lambda>r. r_status r = ''maybe'')
                           (list_event_participants (db w) event_id))))"
    if st: "statuses_ok (db w)"
  proof -
    have "statuses_ok ?d"
      using st by (rule statuses_ok_insert) simp
    then have "get_rsvp_counts ?d event_id ''maybe'' =
        Some (length (filter (\<lambda>r. r_status r = ''maybe'') (list_event_participants ?d event_id)))"
      by (rule get_rsvp_counts_lookup) simp
    then show ?thesis
      by (simp add: list_event_participants_def)
  qed
  have key: "get_rsvp_counts ?d event_id ''maybe'' \<noteq> None"
    by (rule get_rsvp_counts_keys) simp
  show ?thesis
    using run stored counts key by (intro exI [of _ ?w1]) (simp add: emit_def)
qed

theorem handle_join_event_first_time_witness:
  "\<exists>w1. handle_join_event ''planner_bot'' ''2026-11-04T10:00:00'' (idle one_event)
           (private_text 20 ''/start join_1'') 1 = Inr w1 \<and>
     rsvp (db w1) = [\<lparr>r_event_id = 1, r_user_id = 20, r_status = ''maybe'',
                       r_updated_at = ''2026-11-04T10:00:00''\<rparr>] \<and>
     map_option r_status (get_rsvp (db w1) 1 20) = Some ''maybe'' \<and>
     get_rsvp_counts (db w1) 1 ''maybe'' = Some 1"
proof -
  have p: "msg_chat_type (private_text 20 ''/start join_1'') = ''private''"
    by (simp add: private_text_def)
  have ev: "get_event (db (idle one_event)) 1 = Some (hd (events one_event))"
    by (simp add: idle_def one_event_eq get_event_def)
  have r: "get_rsvp (db (idle one_event)) 1 (msg_from_user_id (private_text 20 ''/start join_1'')) =
           None"
    by (simp add: idle_def one_event_eq get_rsvp_def private_text_def)
  have st: "statuses_ok (db (idle one_event))"
    by (simp add: idle_def one_event_eq statuses_ok_def)
  have none: "list_event_participants (db (idle one_event)) 1 = []"
    by (simp add: idle_def one_event_eq list_event_participants_def)
  have u: "msg_from_user_id (private_text 20 ''/start join_1'') = 20"
    and d: "rsvp (db (idle one_event)) = []"
    by (simp_all add: private_text_def idle_def one_event_eq)
  show ?thesis
    using handle_join_event_first_time [OF p ev r, of "''planner_bot''" "''2026-11-04T10:00:00''"] st
    by (auto simp: none u d)
qed

subsection \<open>The creation dialogue\<close>

lemma finish_event_creation_result:
  assumes "data st ''title'' = Some a" and "data st ''type'' = Some b"
    and "data st ''time'' = Some c" and "data st ''location'' = Some l"
  shows "\<exists>w1. finish_event_creation username now w user_id chat_id st = Inr w1 \<and>
           events (db w1) = events (db w) @
             [\<lparr>e_id = events_seq (db w) + 1, e_user_id = user_id, e_title = a, e_type = b,
               e_time = c, e_location = l, e_created_at = now\<rparr>] \<and>
           rsvp (db w1) = rsvp (db w) \<and>
           user_states w1 = (user_states w)(user_id := None)"
proof -
  let ?row = "\<lparr>e_id = events_seq (db w) + 1, e_user_id = user_id, e_title = a, e_type = b,
               e_time = c, e_location = l, e_created_at = now\<rparr>"
  let ?d = "(db w)\<lparr>events := events (db w) @ [?row], events_seq := events_seq (db w) + 1\<rparr>"
  have create: "create_event (db w) now user_id a b c l = (?d, events_seq (db w) + 1)"
    by (simp add: create_event_def Let_def)
  have "get_event ?d (events_seq (db w) + 1) \<noteq> None"
    by (simp add: get_event_None)
  then obtain event where event: "get_event ?d (events_seq (db w) + 1) = Some event"
    by auto
  show ?thesis
    using assms create event
    by (simp add: finish_event_creation_def lookup_def and_then_def reset_state_def emit_def Let_def)
qed

lemma current_step_values:
  "step_index st = 0 \<Longrightarrow> current_step st = Inr ''title''"
  "step_index st = 1 \<Longrightarrow> current_step st = Inr ''location''"
  "step_index st = 2 \<Longrightarrow> current_step st = Inr ''type''"
  "step_index st = 3 \<Longrightarrow> current_step st = Inr ''time''"
  by (simp_all add: current_step_def steps_def item_def)

lemma store_and_advance_result:
  assumes "step_index st < 3"
  shows "\<exists>w1. store_and_advance w m st step v = Inr w1 \<and> db w1 = db w \<and>
           user_states w1 = (user_states w)(msg_from_user_id m \<mapsto>
             st\<lparr>data := (data st)(step \<mapsto> v), step_index := step_index st + 1\<rparr>)"
  using assms
  by (simp add: store_and_advance_def advance_def current_step_def steps_def item_def
      and_then_def emit_def Let_def)

lemma title_step:
  assumes "user_states w (msg_from_user_id m) = Some st" and "step_index st = 0"
    and "\<not> blank (msg_text m)"
  shows "\<exists>w1. handle_event_creation fmt username now w m = Inr w1 \<and> db w1 = db w \<and>
           user_states w1 = (user_states w)(msg_from_user_id m \<mapsto>
             st\<lparr>data := (data st)(''title'' \<mapsto> strip (the (msg_text m))), step_index := 1\<rparr>)"
  using assms store_and_advance_result [of st w m "''title''" "strip (the (msg_text m))"]
  by (simp add: handle_event_creation_def lookup_def and_then_def current_step_values)

lemma location_step:
  assumes "user_states w (msg_from_user_id m) = Some st" and "step_index st = 1"
    and "(msg_content_type m = ''location'' \<and> msg_location m \<noteq> None) \<or> \<not> blank (msg_text m)"
  shows "\<exists>w1. handle_event_creation fmt username now w m = Inr w1 \<and> db w1 = db w \<and>
           user_states w1 = (user_states w)(msg_from_user_id m \<mapsto>
             st\<lparr>data := (data st)(''location'' \<mapsto>
               (if msg_content_type m = ''location'' \<and> msg_location m \<noteq> None
                then ''Pin: '' @ fmt (fst (the (msg_location m))) @ '', '' @
                     fmt (snd (the (msg_location m)))
                else strip (the (msg_text m)))),
               step_index := 2\<rparr>)"
proof (cases "msg_content_type m = ''location'' \<and> msg_location m \<noteq> None")
  case True
  then obtain lat lon where loc: "msg_location m = Some (lat, lon)"
    by (cases "msg_location m") auto
  show ?thesis
    using assms(1,2) True loc
      store_and_advance_result [of st w m "''location''" "''Pin: '' @ fmt lat @ '', '' @ fmt lon"]
    by (simp add: handle_event_creation_def lookup_def and_then_def current_step_values
        numeral_2_eq_2)
next
  case False
  with assms(3) have nb: "\<not> blank (msg_text m)" by blast
  from False have other: "\<not> (msg_content_type m = ''location'' \<and> msg_location m \<noteq> None)" .
  have "handle_event_creation fmt username now w m =
        store_and_advance w m st ''location'' (strip (the (msg_text m)))"
    using assms(1) nb other current_step_values(2) [OF assms(2)]
    by (auto simp: handle_event_creation_def lookup_def and_then_def)
  then show ?thesis
    using store_and_advance_result [of st w m "''location''" "strip (the (msg_text m))"] assms(2)
    by (simp only: other if_False) (simp add: numeral_2_eq_2)
qed

lemma type_step:
  assumes "user_states w (msg_from_user_id m) = Some st" and "step_index st = 2"
    and "\<not> blank (msg_text m)"
  shows "\<exists>w1. handle_event_creation fmt username now w m = Inr w1 \<and> db w1 = db w \<and>
           user_states w1 = (user_states w)(msg_from_user_id m \<mapsto>
             st\<lparr>data := (data st)(''type'' \<mapsto> strip (the (msg_text m))), step_index := 3\<rparr>)"
  using assms store_and_advance_result [of st w m "''type''" "strip (the (msg_text m))"]
  by (simp add: handle_event_creation_def lookup_def and_then_def current_step_values)

lemma time_step:
  assumes "user_states w (msg_from_user_id m) = Some st" and "step_index st = 3"
    and "msg_content_type m = ''text''"
    and "data st ''title'' = Some a" and "data st ''type'' = Some b"
    and "data st ''location'' = Some l"
  shows "\<exists>w1. handle_event_creation fmt username now w m = Inr w1 \<and>
           events (db w1) = events (db w) @
             [\<lparr>e_id = events_seq (db w) + 1, e_user_id = msg_from_user_id m, e_title = a,
               e_type = b, e_time = time_value (msg_text m), e_location = l,
               e_created_at = now\<rparr>] \<and>
           rsvp (db w1) = rsvp (db w) \<and>
           user_states w1 = (user_states w)(msg_from_user_id m := None)"
proof -
  let ?st = "st\<lparr>data := (data st)(''time'' \<mapsto> time_value (msg_text m))\<rparr>"
  let ?w = "w\<lparr>user_states := (user_states w)(msg_from_user_id m \<mapsto> ?st)\<rparr>"
  have run: "handle_event_creation fmt username now w m =
        finish_event_creation username now ?w (msg_from_user_id m) (msg_chat_id m) ?st"
    using assms(1-3)
    by (simp add: handle_event_creation_def lookup_def and_then_def current_step_values Let_def)
  have "data ?st ''title'' = Some a" "data ?st ''type'' = Some b"
    "data ?st ''time'' = Some (time_value (msg_text m))" "data ?st ''location'' = Some l"
    using assms(4-6) by simp_all
  from finish_event_creation_result [OF this, of username now ?w "msg_from_user_id m" "msg_chat_id m"]
  show ?thesis
    unfolding run by simp
qed


text \<open>
  The whole dialogue. A user starts it with \<^verbatim>\<open>/new\<close> in a private chat and sends
  four messages, each passing the validation of its step: a title that is not blank, a
  location pin or a location text that is not blank, a type that is not blank, and any
  text message for the time. Then every call of \<^verbatim>\<open>handle_event_creation\<close> returns,
  the store is untouched until the fourth, and after the fourth the table of events has
  grown by exactly one row, whose title, location and type are the trimmed inputs of
  their steps and whose time is what the time step computes from the fourth; the
  conversation state of the user is gone.
\<close>

theorem creation_dialogue_persists_event:
  assumes "msg_chat_type m0 = ''private''"
    and "msg_from_user_id m0 = uid" and "msg_from_user_id m1 = uid"
    and "msg_from_user_id m2 = uid" and "msg_from_user_id m3 = uid"
    and "msg_from_user_id m4 = uid"
    and "\<not> blank (msg_text m1)"
    and "(msg_content_type m2 = ''location'' \<and> msg_location m2 \<noteq> None) \<or>
         \<not> blank (msg_text m2)"
    and "\<not> blank (msg_text m3)"
    and "msg_content_type m4 = ''text''"
  shows "\<exists>w1 w2 w3 w4.
           handle_event_creation fmt username t1 (handle_new w0 m0) m1 = Inr w1 \<and>
           handle_event_creation fmt username t2 w1 m2 = Inr w2 \<and>
           handle_event_creation fmt username t3 w2 m3 = Inr w3 \<and>
           handle_event_creation fmt username t4 w3 m4 = Inr w4 \<and>
           user_states w3 uid \<noteq> None \<and> db w3 = db w0 \<and>
           events (db w4) = events (db w0) @
             [\<lparr>e_id = events_seq (db w0) + 1,
               e_user_id = uid,
               e_title = strip (the (msg_text m1)),
               e_type = strip (the (msg_text m3)),
               e_time = time_value (msg_text m4),
               e_location =
                 (if msg_content_type m2 = ''location'' \<and> msg_location m2 \<noteq> None
                  then ''Pin: '' @ fmt (fst (the (msg_location m2))) @ '', '' @
                       fmt (snd (the (msg_location m2)))
                  else strip (the (msg_text m2))),
               e_created_at = t4\<rparr>] \<and>
           rsvp (db w4) = rsvp (db w0) \<and>
           user_states w4 = (user_states w0)(uid := None)"
proof -
  let ?loc = "if msg_content_type m2 = ''location'' \<and> msg_location m2 \<noteq> None
              then ''Pin: '' @ fmt (fst (the (msg_location m2))) @ '', '' @
                   fmt (snd (the (msg_location m2)))
              else strip (the (msg_text m2))"
  let ?st0 = "\<lparr>step_index = 0, data = Map.empty\<rparr>"
  let ?st1 = "?st0\<lparr>data := (data ?st0)(''title'' \<mapsto> strip (the (msg_text m1))), step_index := 1\<rparr>"
  let ?st2 = "?st1\<lparr>data := (data ?st1)(''location'' \<mapsto> ?loc), step_index := 2\<rparr>"
  let ?st3 = "?st2\<lparr>data := (data ?st2)(''type'' \<mapsto> strip (the (msg_text m3))), step_index := 3\<rparr>"
  let ?w = "handle_new w0 m0"
  have new: "user_states ?w = (user_states w0)(uid \<mapsto> ?st0)" "db ?w = db w0"
    using assms(1,2) by (simp_all add: handle_new_def emit_def)
  have s0: "user_states ?w (msg_from_user_id m1) = Some ?st0"
    using new(1) assms(3) by simp
  from title_step [OF s0 _ assms(7), of fmt username t1]
  obtain w1 where w1: "handle_event_creation fmt username t1 ?w m1 = Inr w1" "db w1 = db w0"
    "user_states w1 = (user_states w0)(uid \<mapsto> ?st1)"
    using new assms(3) by auto
  have s1: "user_states w1 (msg_from_user_id m2) = Some ?st1"
    using w1(3) assms(4) by simp
  from location_step [OF s1 _ assms(8), of fmt username t2]
  obtain w2 where w2: "handle_event_creation fmt username t2 w1 m2 = Inr w2" "db w2 = db w0"
    "user_states w2 = (user_states w0)(uid \<mapsto> ?st2)"
    using w1(2,3) assms(4) by auto
  have s2: "user_states w2 (msg_from_user_id m3) = Some ?st2"
    using w2(3) assms(5) by simp
  from type_step [OF s2 _ assms(9), of fmt username t3]
  obtain w3 where w3: "handle_event_creation fmt username t3 w2 m3 = Inr w3" "db w3 = db w0"
    "user_states w3 = (user_states w0)(uid \<mapsto> ?st3)"
    using w2(2,3) assms(5) by auto
  have s3: "user_states w3 (msg_from_user_id m4) = Some ?st3"
    using w3(3) assms(6) by simp
  have "step_index ?st3 = 3" "data ?st3 ''title'' = Some (strip (the (msg_text m1)))"
    "data ?st3 ''type'' = Some (strip (the (msg_text m3)))"
    "data ?st3 ''location'' = Some ?loc"
    by simp_all
  from time_step [OF s3 this(1) assms(10) this(2-4), of fmt username t4]
  obtain w4 where w4: "handle_event_creation fmt username t4 w3 m4 = Inr w4"
    "events (db w4) = events (db w0) @
       [\<lparr>e_id = events_seq (db w0) + 1, e_user_id = uid,
         e_title = strip (the (msg_text m1)), e_type = strip (the (msg_text m3)),
         e_time = time_value (msg_text m4), e_location = ?loc, e_created_at = t4\<rparr>]"
    "rsvp (db w4) = rsvp (db w0)"
    "user_states w4 = (user_states w0)(uid := None)"
    using w3(2,3) assms(6) by auto
  have "user_states w3 uid \<noteq> None"
    using w3(3) by simp
  with w1(1) w2(1) w3(1,2) w4 show ?thesis
    by blast
qed


theorem creation_dialogue_persists_event_example:
  "\<exists>w1 w2 w3 w4.
     handle_event_creation (\<lambda>x. []) ''planner_bot'' ''2026-11-04T09:00:01''
       (handle_new (idle empty_database) (private_text 10 ''/new''))
       (private_text 10 '' Board games '') = Inr w1 \<and>
     handle_event_creation (\<lambda>x. []) ''planner_bot'' ''2026-11-04T09:00:02'' w1
       (private_text 10 ''Alex's place'') = Inr w2 \<and>
     handle_event_creation (\<lambda>x. []) ''planner_bot'' ''2026-11-04T09:00:03'' w2
       (private_text 10 ''game night'') = Inr w3 \<and>
     handle_event_creation (\<lambda>x. []) ''planner_bot'' ''2026-11-04T09:00:04'' w3
       (private_text 10 []) = Inr w4 \<and>
     events (db w4) =
       [\<lparr>e_id = 1, e_user_id = 10, e_title = ''Board games'', e_type = ''game night'',
         e_time = ''Tomorrow 19:00'', e_location = ''Alex's place'',
         e_created_at = ''2026-11-04T09:00:04''\<rparr>] \<and>
     rsvp (db w4) = [] \<and> user_states w4 10 = None"
proof -
  have texts: "strip '' Board games '' = ''Board games''" "strip ''Alex's place'' = ''Alex's place''"
    "strip ''game night'' = ''game night''" "time_value (Some []) = ''Tomorrow 19:00''"
    by (simp_all add: strip_def isspace_def time_value_def DEFAULT_TIME_TEXT_def)
  have valid: "\<not> blank (msg_text (private_text 10 '' Board games ''))"
    "(msg_content_type (private_text 10 ''Alex's place'') = ''location'' \<and>
      msg_location (private_text 10 ''Alex's place'') \<noteq> None) \<or>
     \<not> blank (msg_text (private_text 10 ''Alex's place''))"
    "\<not> blank (msg_text (private_text 10 ''game night''))"
    "msg_content_type (private_text 10 []) = ''text''"
    by (simp_all add: private_text_def blank_def texts)
  have who: "msg_chat_type (private_text 10 ''/new'') = ''private''"
    "msg_from_user_id (private_text 10 t) = 10" for t
    by (simp_all add: private_text_def)
  show ?thesis
    using creation_dialogue_persists_event [OF who(1) who(2) who(2) who(2) who(2) who(2) valid,
        of "\<lambda>x. []" "''planner_bot''" "''2026-11-04T09:00:01''" "idle empty_database"
           "''2026-11-04T09:00:02''" "''2026-11-04T09:00:03''" "''2026-11-04T09:00:04''"]
    by (auto simp: private_text_def idle_def empty_database_def texts)
qed

text \<open>
  What the time step computes: the default for a blank text, the text behind
  \<^verbatim>\<open>Tomorrow\<close> for two digits, a colon and two digits, and the trimmed text itself
  when it does not have five characters, has no colon at index 2, or holds a character
  that is neither a colon nor a digit.
\<close>

lemma replace_by_nothing: "replace c [] s = filter (\<lambda>x. x \<noteq> c) s"
  by (induction s) (auto simp: replace_def)

lemma time_value_unfold:
  "time_value (Some s) =
     (if strip s = [] then DEFAULT_TIME_TEXT
      else if length (strip s) = 5 \<and> strip s ! 2 = CHR '':'' \<and>
              isdigit (filter (\<lambda>x. x \<noteq> CHR '':'') (strip s))
      then ''Tomorrow '' @ strip s
      else strip s)"
proof (cases "s = []")
  case True
  then show ?thesis
    by (simp add: time_value_def strip_def)
next
  case False
  then show ?thesis
    by (simp only: time_value_def option.case if_False Let_def replace_by_nothing)
qed

lemma time_value_blank: "blank t \<Longrightarrow> time_value t = DEFAULT_TIME_TEXT"
proof (cases t)
  case None
  then show ?thesis
    by (simp add: time_value_def)
next
  case (Some s)
  assume "blank t"
  with Some have "strip s = []"
    by (auto simp: blank_def strip_def)
  with Some show ?thesis
    by (simp only: time_value_unfold simp_thms if_True)
qed

lemma time_value_hhmm:
  assumes "strip s = [a, b, CHR '':'', c, d]"
    and "is_decimal a" and "is_decimal b" and "is_decimal c" and "is_decimal d"
  shows "time_value (Some s) = ''Tomorrow '' @ strip s"
proof -
  define u where "u = strip s"
  have u: "u = [a, b, CHR '':'', c, d]"
    using assms(1) by (simp add: u_def)
  have "a \<noteq> CHR '':''" "b \<noteq> CHR '':''" "c \<noteq> CHR '':''" "d \<noteq> CHR '':''"
    using assms(2-5) by (auto simp: is_decimal_def)
  then have "filter (\<lambda>x. x \<noteq> CHR '':'') u = [a, b, c, d]"
    by (simp add: u)
  then have "isdigit (filter (\<lambda>x. x \<noteq> CHR '':'') u)"
    using assms(2-5) by (simp add: isdigit_def isdigit_char_def)
  moreover have "u \<noteq> []" "length u = 5" "u ! 2 = CHR '':''"
    by (simp_all add: u)
  ultimately have "(if u = [] then DEFAULT_TIME_TEXT
      else if length u = 5 \<and> u ! 2 = CHR '':'' \<and> isdigit (filter (\<lambda>x. x \<noteq> CHR '':'') u)
      then ''Tomorrow '' @ u else u) = ''Tomorrow '' @ u"
    by (simp only: if_True if_False simp_thms)
  then show ?thesis
    unfolding u_def by (simp only: time_value_unfold)
qed

lemma time_value_verbatim:
  assumes "strip s \<noteq> []"
    and "length (strip s) \<noteq> 5 \<or> strip s ! 2 \<noteq> CHR '':'' \<or>
         (\<exists>c \<in> set (strip s). c \<noteq> CHR '':'' \<and> \<not> isdigit_char c)"
  shows "time_value (Some s) = strip s"
proof -
  define u where "u = strip s"
  have "\<not> isdigit (filter (\<lambda>x. x \<noteq> CHR '':'') u)"
    if "\<exists>c \<in> set u. c \<noteq> CHR '':'' \<and> \<not> isdigit_char c"
    using that by (auto simp: isdigit_def list_all_iff)
  with assms(2)
  have "\<not> (length u = 5 \<and> u ! 2 = CHR '':'' \<and> isdigit (filter (\<lambda>x. x \<noteq> CHR '':'') u))"
    unfolding u_def by blast
  moreover have "u \<noteq> []"
    using assms(1) by (simp add: u_def)
  ultimately have "(if u = [] then DEFAULT_TIME_TEXT
      else if length u = 5 \<and> u ! 2 = CHR '':'' \<and> isdigit (filter (\<lambda>x. x \<noteq> CHR '':'') u)
      then ''Tomorrow '' @ u else u) = u"
    by (simp only: if_False)
  then show ?thesis
    unfolding u_def by (simp only: time_value_unfold)
qed

text \<open>
  Claim C1. The dialogue with the inputs \<^verbatim>\<open>Board games\<close>, \<^verbatim>\<open>Alex's place\<close>,
  \<^verbatim>\<open>game night\<close> and \<^verbatim>\<open>1::23\<close>, each of which passes the validation of its
  step: one event is persisted and the conversation state is gone, and the title,
  location and type are the inputs, but the time field is \<^verbatim>\<open>Tomorrow 1::23\<close>. The
  fourth input is not of the form HH:MM, so its validated value is the trimmed text
  \<^verbatim>\<open>1::23\<close>; the test of the time step takes it for a time of day.
\<close>

theorem creation_dialogue_stray_colons:
  "\<exists>w1 w2 w3 w4.
     handle_event_creation (\<lambda>x. []) ''planner_bot'' ''2026-11-04T09:00:01''
       (handle_new (idle empty_database) (private_text 10 ''/new''))
       (private_text 10 ''Board games'') = Inr w1 \<and>
     handle_event_creation (\<lambda>x. []) ''planner_bot'' ''2026-11-04T09:00:02'' w1
       (private_text 10 ''Alex's place'') = Inr w2 \<and>
     handle_event_creation (\<lambda>x. []) ''planner_bot'' ''2026-11-04T09:00:03'' w2
       (private_text 10 ''game night'') = Inr w3 \<and>
     handle_event_creation (\<lambda>x. []) ''planner_bot'' ''2026-11-04T09:00:04'' w3
       (private_text 10 ''1::23'') = Inr w4 \<and>
     strip ''1::23'' = ''1::23'' \<and>
     events (db w4) =
       [\<lparr>e_id = 1, e_user_id = 10, e_title = ''Board games'', e_type = ''game night'',
         e_time = ''Tomorrow 1::23'', e_location = ''Alex's place'',
         e_created_at = ''2026-11-04T09:00:04''\<rparr>] \<and>
     rsvp (db w4) = [] \<and> user_states w4 10 = None"
proof -
  have texts: "strip ''Board games'' = ''Board games''" "strip ''Alex's place'' = ''Alex's place''"
    "strip ''game night'' = ''game night''" "strip ''1::23'' = ''1::23''"
    by (simp_all add: strip_def isspace_def)
  have bug: "time_value (Some ''1::23'') = ''Tomorrow 1::23''"
    by (simp add: time_value_def texts replace_def isdigit_def isdigit_char_def is_decimal_def)
  have valid: "\<not> blank (msg_text (private_text 10 ''Board games''))"
    "(msg_content_type (private_text 10 ''Alex's place'') = ''location'' \<and>
      msg_location (private_text 10 ''Alex's place'') \<noteq> None) \<or>
     \<not> blank (msg_text (private_text 10 ''Alex's place''))"
    "\<not> blank (msg_text (private_text 10 ''game night''))"
    "msg_content_type (private_text 10 ''1::23'') = ''text''"
    by (simp_all add: private_text_def blank_def texts)
  have who: "msg_chat_type (private_text 10 ''/new'') = ''private''"
    "msg_from_user_id (private_text 10 t) = 10" for t
    by (simp_all add: private_text_def)
  show ?thesis
    using creation_dialogue_persists_event [OF who(1) who(2) who(2) who(2) who(2) who(2) valid,
        of "\<lambda>x. []" "''planner_bot''" "''2026-11-04T09:00:01''" "idle empty_database"
           "''2026-11-04T09:00:02''" "''2026-11-04T09:00:03''" "''2026-11-04T09:00:04''"]
    by (auto simp: private_text_def idle_def empty_database_def texts bug)
qed

subsection \<open>The invariant of the process\<close>

text \<open>
  Every handler that returns keeps the invariant, and the empty store satisfies it: the
  stores the process reaches satisfy the constraints of the schema and hold only the
  statuses yes, no and maybe.
\<close>

lemma statuses_ok_upsert:
  assumes "statuses_ok d" and "s \<in> set [''yes'', ''no'', ''maybe'']"
    and "upsert_rsvp d now i u s = Inr d1"
  shows "statuses_ok d1"
  using assms
  by (auto simp: upsert_rsvp_def statuses_ok_def Let_def split: if_splits)

lemma statuses_ok_delete: "statuses_ok d \<Longrightarrow> statuses_ok (fst (delete_event d i u))"
  by (auto simp: delete_event_def statuses_ok_def Let_def)

lemma statuses_ok_create:
  "statuses_ok d \<Longrightarrow> statuses_ok (fst (create_event d now u t ty tm l))"
  by (auto simp: create_event_def statuses_ok_def Let_def)

lemma store_ok_emit: "store_ok (emit calls w) = store_ok w"
  by (simp add: store_ok_def emit_def)

lemma store_ok_start: "store_ok (idle empty_database)"
  using schema_ok_empty by (simp add: store_ok_def idle_def statuses_ok_def empty_database_def)

lemma store_ok_upsert:
  assumes "store_ok w" and "s \<in> set [''yes'', ''no'', ''maybe'']"
    and "upsert_rsvp (db w) now i u s = Inr d1"
  shows "store_ok (w\<lparr>db := d1\<rparr>)"
  using assms schema_ok_upsert [of "db w" now i u s d1] statuses_ok_upsert [of "db w" s now i u d1]
  by (simp add: store_ok_def)

lemma store_ok_handle_new: "store_ok w \<Longrightarrow> store_ok (handle_new w m)"
  by (simp add: handle_new_def store_ok_emit) (simp add: store_ok_def)

lemma store_ok_handle_cancel: "store_ok w \<Longrightarrow> store_ok (handle_cancel w m)"
  by (simp add: handle_cancel_def store_ok_emit reset_state_def) (simp add: store_ok_def)

lemma store_ok_handle_view_callback:
  "store_ok w \<Longrightarrow> store_ok (handle_view_callback username w call i)"
  by (simp add: handle_view_callback_def store_ok_emit Let_def split: option.splits)

lemma store_ok_handle_delete_callback:
  assumes "store_ok w"
  shows "store_ok (handle_delete_callback edit_ok w call i)"
proof -
  have "store_ok (w\<lparr>db := fst (delete_event (db w) i u)\<rparr>)" for u
    using assms by (simp add: store_ok_def schema_ok_delete statuses_ok_delete)
  then show ?thesis
    using assms
    by (auto simp: handle_delete_callback_def store_ok_emit Let_def
        split: option.splits prod.splits)
       (metis fst_conv)+
qed

lemma store_ok_handle_join_event:
  assumes "store_ok w" and "handle_join_event username now w m i = Inr w1"
  shows "store_ok w1"
proof (cases "msg_chat_type m = ''private'' \<and> get_event (db w) i \<noteq> None \<and>
              get_rsvp (db w) i (msg_from_user_id m) = None")
  case True
  then obtain e where e: "get_event (db w) i = Some e" by auto
  from True e obtain d1 where up: "upsert_rsvp (db w) now i (msg_from_user_id m) ''maybe'' = Inr d1"
    using upsert_rsvp_succeeds by blast
  then have "store_ok (w\<lparr>db := d1\<rparr>)"
    using assms(1) store_ok_upsert [of w "''maybe''" now i "msg_from_user_id m" d1] by simp
  with assms(2) True e up show ?thesis
    by (auto simp: handle_join_event_def and_then_def Let_def store_ok_emit)
next
  case False
  with assms show ?thesis
    by (auto simp: handle_join_event_def and_then_def Let_def store_ok_emit
        split: option.splits if_splits)
qed

lemma store_ok_handle_rsvp_callback:
  assumes "store_ok w" and "handle_rsvp_callback username edit_ok now w call i s = Inr w1"
  shows "store_ok w1"
proof (cases "s \<in> set [''yes'', ''no'', ''maybe'']")
  case False
  with assms show ?thesis
    by (auto simp: handle_rsvp_callback_def store_ok_emit)
next
  case True
  show ?thesis
  proof (cases "upsert_rsvp (db w) now i (cq_from_user_id call) s")
    case (Inl err)
    with assms True show ?thesis
      by (auto simp: handle_rsvp_callback_def store_ok_emit and_then_def
          split: option.splits if_splits)
  next
    case (Inr d1)
    then have "store_ok (w\<lparr>db := d1\<rparr>)"
      using assms(1) True store_ok_upsert by blast
    with assms True Inr show ?thesis
      by (auto simp: handle_rsvp_callback_def store_ok_emit and_then_def Let_def
          split: option.splits if_splits)
  qed
qed

lemma store_ok_handle_callbacks:
  assumes "store_ok w" and "handle_callbacks username edit_ok now w call = Inr w1"
  shows "store_ok w1"
  using assms store_ok_handle_view_callback store_ok_handle_delete_callback
    store_ok_handle_rsvp_callback
  by (auto simp: handle_callbacks_def store_ok_emit Let_def split: if_splits sum.splits)

lemma store_ok_handle_start:
  assumes "store_ok w" and "handle_start username now w m = Inr w1"
  shows "store_ok w1"
  using assms store_ok_handle_join_event
  by (auto simp: handle_start_def store_ok_emit Let_def split: if_splits sum.splits option.splits)


lemma store_and_advance_db:
  "store_and_advance w m st step v = Inr w1 \<Longrightarrow> db w1 = db w"
  by (auto simp: store_and_advance_def and_then_def emit_def Let_def split: sum.splits)

lemma finish_event_creation_db:
  assumes "finish_event_creation username now w user_id chat_id st = Inr w1"
  shows "\<exists>t ty tm l. db w1 = fst (create_event (db w) now user_id t ty tm l)"
  using assms
  by (auto simp: finish_event_creation_def and_then_def lookup_def emit_def reset_state_def
      Let_def split: sum.splits option.splits prod.splits)
     (metis fst_conv)

lemma store_ok_create:
  assumes "store_ok w" and "db w1 = fst (create_event (db w) now u t ty tm l)"
  shows "store_ok w1"
  using assms by (simp add: store_ok_def schema_ok_create statuses_ok_create)

lemma store_ok_same_db: "store_ok w \<Longrightarrow> db w1 = db w \<Longrightarrow> store_ok w1"
  by (simp add: store_ok_def)

lemma handle_event_creation_db:
  assumes "handle_event_creation fmt username now w m = Inr w1"
  shows "db w1 = db w \<or>
         (\<exists>t ty tm l. db w1 = fst (create_event (db w) now (msg_from_user_id m) t ty tm l))"
proof -
  from assms obtain st step where st: "user_states w (msg_from_user_id m) = Some st"
    and step: "current_step st = Inr step"
    by (auto simp: handle_event_creation_def and_then_def lookup_def
        split: option.splits sum.splits)
  note unfold = handle_event_creation_def and_then_def lookup_def st step
  have same: "db w1 = db w" if "store_and_advance w m st s v = Inr w1" for s v
    using that by (rule store_and_advance_db)
  have said: "db (emit calls w) = db w" for calls
    by (simp add: emit_def)
  consider "step = ''title''" | "step = ''location''" | "step = ''type''" | "step = ''time''"
    | "step \<notin> set [''title'', ''location'', ''type'', ''time'']"
    by auto
  then show ?thesis
  proof cases
    case 1
    with assms show ?thesis
      by (auto simp: unfold said same split: if_splits)
  next
    case 2
    with assms show ?thesis
      by (auto simp: unfold said same split: if_splits prod.splits)
  next
    case 3
    with assms show ?thesis
      by (auto simp: unfold said same split: if_splits)
  next
    case 4
    show ?thesis
    proof (cases "msg_content_type m = ''text''")
      case False
      with assms 4 show ?thesis
        by (auto simp: unfold said)
    next
      case True
      let ?st = "st\<lparr>data := (data st)(''time'' \<mapsto> time_value (msg_text m))\<rparr>"
      let ?w = "w\<lparr>user_states := (user_states w)(msg_from_user_id m \<mapsto> ?st)\<rparr>"
      from assms 4 True
      have "finish_event_creation username now ?w (msg_from_user_id m) (msg_chat_id m) ?st = Inr w1"
        by (simp add: unfold Let_def)
      then obtain t ty tm l
        where "db w1 = fst (create_event (db ?w) now (msg_from_user_id m) t ty tm l)"
        using finish_event_creation_db by blast
      then show ?thesis
        by auto
    qed
  next
    case 5
    with assms show ?thesis
      by (auto simp: unfold)
  qed
qed

lemma store_ok_handle_event_creation:
  assumes "store_ok w" and "handle_event_creation fmt username now w m = Inr w1"
  shows "store_ok w1"
  using handle_event_creation_db [OF assms(2)] assms(1) store_ok_same_db store_ok_create
  by blast

end
